theory Spec2Isabelle
  imports Main "HOL-Library.List_Lexorder" "HOL-Library.Product_Lexorder" "HOL-Library.AList"
begin

section \<open>Python values used by sandbox.py\<close>

text \<open>
  A Python \<open>str\<close> is a sequence of Unicode code points; it is modelled as a list of
  natural numbers, so that \<open>strip\<close>, \<open>splitlines\<close> and the comparison of strings see
  every code point (also those beyond the 8-bit range). \<open>py\<close> turns a HOL string literal
  into that representation. Lists are ordered lexicographically, a proper prefix being
  smaller, which is Python's order on strings and on tuples of integers.
\<close>

type_synonym pystr = "nat list"

type_synonym path = pystr

definition py :: "string \<Rightarrow> pystr" where
  "py cs = map of_char cs"

text \<open>A version is the tuple of integers that \<open>_python_version\<close> parses.\<close>

type_synonym version = "int list"

section \<open>String operations of the Python library\<close>

text \<open>
  The code points that \<open>str.strip()\<close> removes (those for which \<open>str.isspace\<close> holds) and
  the line boundaries of \<open>str.splitlines()\<close>. Every line boundary is also white space.
\<close>

definition is_space :: "nat \<Rightarrow> bool" where
  "is_space c \<longleftrightarrow>
     (9 \<le> c \<and> c \<le> 13) \<or> (28 \<le> c \<and> c \<le> 32) \<or> c = 133 \<or> c = 160 \<or> c = 5760 \<or>
     (8192 \<le> c \<and> c \<le> 8202) \<or> c = 8232 \<or> c = 8233 \<or> c = 8239 \<or> c = 8287 \<or>
     c = 12288"

definition is_linebreak :: "nat \<Rightarrow> bool" where
  "is_linebreak c \<longleftrightarrow>
     (10 \<le> c \<and> c \<le> 13) \<or> (28 \<le> c \<and> c \<le> 30) \<or> c = 133 \<or> c = 8232 \<or> c = 8233"

definition strip :: "pystr \<Rightarrow> pystr" where
  "strip s = rev (dropWhile is_space (rev (dropWhile is_space s)))"

text \<open>
  \<open>splitlines\<close>: \<open>cur\<close> is the line read so far. A carriage return followed by a line
  feed is one boundary; text after the last boundary is a line only when it is not empty.
\<close>

fun splitlines_from :: "pystr \<Rightarrow> pystr \<Rightarrow> pystr list" where
  "splitlines_from cur [] = (if cur = [] then [] else [cur])"
| "splitlines_from cur [c] = (if is_linebreak c then [cur] else [cur @ [c]])"
| "splitlines_from cur (c # d # cs) =
     (if c = 13 \<and> d = 10 then cur # splitlines_from [] cs
      else if is_linebreak c then cur # splitlines_from [] (d # cs)
      else splitlines_from (cur @ [c]) (d # cs))"

definition splitlines :: "pystr \<Rightarrow> pystr list" where
  "splitlines text = splitlines_from [] text"

text \<open>\<open>sep.join(parts)\<close>.\<close>

fun py_join :: "pystr \<Rightarrow> pystr list \<Rightarrow> pystr" where
  "py_join sep [] = []"
| "py_join sep [x] = x"
| "py_join sep (x # y # ys) = x @ sep @ py_join sep (y # ys)"

text \<open>\<open>line.startswith("#")\<close> and \<open>"=" in line\<close>; 35 is \<open>#\<close> and 61 is \<open>=\<close>.\<close>

definition starts_with_hash :: "pystr \<Rightarrow> bool" where
  "starts_with_hash line = (case line of [] \<Rightarrow> False | c # _ \<Rightarrow> c = 35)"

definition has_eq :: "pystr \<Rightarrow> bool" where
  "has_eq line \<longleftrightarrow> 61 \<in> set line"

text \<open>\<open>line.split("=", 1)\<close> on a line that contains \<open>=\<close>: the parts around the first one.\<close>

definition split_eq :: "pystr \<Rightarrow> pystr \<times> pystr" where
  "split_eq line = (takeWhile (\<lambda>c. c \<noteq> 61) line, tl (dropWhile (\<lambda>c. c \<noteq> 61) line))"

text \<open>
  The truth value of an optional string: \<open>None\<close> and the empty string are false. It decides
  every \<open>if x:\<close>, \<open>x or y\<close> and \<open>x and y\<close> of the source on such a value.
\<close>

definition truthy :: "pystr option \<Rightarrow> bool" where
  "truthy x = (case x of None \<Rightarrow> False | Some s \<Rightarrow> s \<noteq> [])"

text \<open>
  \<open>str(n)\<close> for an integer: the decimal digits, with a minus sign when negative.
\<close>

fun digits_of :: "nat \<Rightarrow> pystr" where
  "digits_of n = (if n < 10 then [48 + n] else digits_of (n div 10) @ [48 + n mod 10])"

definition str_of_int :: "int \<Rightarrow> pystr" where
  "str_of_int i = (if i < 0 then 45 # digits_of (nat (- i)) else digits_of (nat i))"

section \<open>Interpreter selection\<close>

text \<open>
  The loop of \<open>select_python\<close> with its two local variables \<open>best\<close> and \<open>best_path\<close>.
  A candidate below \<open>(3, 10, 0)\<close> or at least \<open>(3, 15, 0)\<close> is skipped; another one
  replaces the best so far only when its version is strictly greater.
\<close>

fun select_python_loop ::
  "(path \<times> version) list \<Rightarrow> version option \<Rightarrow> path option \<Rightarrow> path option" where
  "select_python_loop [] best best_path = best_path"
| "select_python_loop ((p, version) # rest) best best_path =
     (if version < [3, 10, 0] then select_python_loop rest best best_path
      else if version \<ge> [3, 15, 0] then select_python_loop rest best best_path
      else if (case best of None \<Rightarrow> True | Some b \<Rightarrow> version > b)
           then select_python_loop rest (Some version) (Some p)
           else select_python_loop rest best best_path)"

definition select_python :: "(path \<times> version) list \<Rightarrow> path option" where
  "select_python candidates = select_python_loop candidates None None"

text \<open>The range of the specification: at least 3.10.0 and below 3.15.0.\<close>

definition in_range :: "version \<Rightarrow> bool" where
  "in_range v \<longleftrightarrow> [3, 10, 0] \<le> v \<and> v < [3, 15, 0]"

text \<open>
  \<open>first_max cs p v\<close>: the candidate \<open>(p, v)\<close> occurs in \<open>cs\<close>, is in range, is strictly
  above every in-range candidate listed before it and at least every in-range candidate
  listed after it.
\<close>

definition first_max :: "(path \<times> version) list \<Rightarrow> path \<Rightarrow> version \<Rightarrow> bool" where
  "first_max cs p v \<longleftrightarrow>
     (\<exists>xs ys. cs = xs @ (p, v) # ys \<and> in_range v \<and>
        (\<forall>c\<in>set xs. in_range (snd c) \<longrightarrow> snd c < v) \<and>
        (\<forall>c\<in>set ys. in_range (snd c) \<longrightarrow> snd c \<le> v))"

definition test_candidates :: "(path \<times> version) list" where
  "test_candidates =
     [(py ''/usr/bin/python3.11'', [3, 11, 5]),
      (py ''/usr/bin/python3.14'', [3, 14, 2]),
      (py ''/usr/bin/python3.15'', [3, 15, 0]),
      (py ''/usr/bin/python3.12'', [3, 12, 0])]"

section \<open>The host: files, processes and the log\<close>

text \<open>
  Everything \<open>sandbox.py\<close> does outside its own variables is a request to the host
  (file system, process environment, \<open>shutil.which\<close>, \<open>subprocess.run\<close>). The
  conversion \<open>int(s)\<close> of a string is a request as well: the built-in function decides
  which strings are numbers, not \<open>sandbox.py\<close>. The host is
  a function from a request and its own state to a response and a new state; the
  theorems below that quantify over the host hold however it answers. An exception is a
  response too. The model keeps, beside the host's state, the trace of all requests with
  their responses and of all calls of \<open>logging.warning\<close>, in the order of execution.
  Calls of \<open>logging.debug\<close>, \<open>logging.info\<close> and \<open>logging.error\<close> are not recorded.
\<close>

datatype exn =
    CalledProcessError
  | FileNotFoundError
  | FileExistsError
  | ValueError
  | UnicodeEncodeError
  | TypeError
  | OSError

text \<open>
  \<open>except subprocess.SubprocessError\<close>: of the exceptions above only
  \<open>CalledProcessError\<close> is a \<open>SubprocessError\<close>. \<open>except ValueError\<close>:
  \<open>UnicodeEncodeError\<close> is a subclass of \<open>ValueError\<close>.
\<close>

definition is_subprocess_error :: "exn \<Rightarrow> bool" where
  "is_subprocess_error e \<longleftrightarrow> e = CalledProcessError"

definition is_value_error :: "exn \<Rightarrow> bool" where
  "is_value_error e \<longleftrightarrow> e = ValueError \<or> e = UnicodeEncodeError"

type_synonym dict = "(pystr \<times> pystr) list"

datatype req =
    Exists path
  | ReadText path
  | WriteText path pystr
  | ReadBytes path
  | WriteBytes path pystr
  | Mkdir path
  | Chmod path nat
  | Unlink path
  | SymlinkTo path path
  | Iterdir path
  | IsDir path
  | IsSymlink path
  | Which pystr
  | PutEnv pystr pystr
  | GetEnv pystr
  | Environ
  | Subprocess "pystr list" bool "dict option"
  | FindPythonCandidates
  | ResolvePath pystr
  | ScriptDir
  | ParseInt pystr

datatype rsp =
    RNone
  | RBool bool
  | RStr pystr
  | RStrOpt "pystr option"
  | RPaths "path list"
  | RDict dict
  | RExit int pystr
  | RInt int
  | RCandidates "(path \<times> version) list"
  | RRaise exn

datatype event = Called req rsp | Warned pystr

type_synonym 'w os = "req \<Rightarrow> 'w \<Rightarrow> rsp \<times> 'w"

type_synonym 'w st = "'w \<times> event list"

type_synonym ('w, 'a) prog = "'w st \<Rightarrow> (exn + 'a) \<times> 'w st"

text \<open>Sequencing: an exception ends the sequence and is the result.\<close>

definition ret :: "'a \<Rightarrow> ('w, 'a) prog" where
  "ret x s = (Inr x, s)"

definition raise :: "exn \<Rightarrow> ('w, 'a) prog" where
  "raise e s = (Inl e, s)"

definition thn :: "('w, 'a) prog \<Rightarrow> ('a \<Rightarrow> ('w, 'b) prog) \<Rightarrow> ('w, 'b) prog" where
  "thn m f s = (case m s of (Inl e, s') \<Rightarrow> (Inl e, s') | (Inr x, s') \<Rightarrow> f x s')"

text \<open>\<open>try: m except <caught>: handler\<close>.\<close>

definition try_except ::
  "('w, 'a) prog \<Rightarrow> (exn \<Rightarrow> bool) \<Rightarrow> ('w, 'a) prog \<Rightarrow> ('w, 'a) prog" where
  "try_except m caught handler s =
     (case m s of
        (Inl e, s') \<Rightarrow> if caught e then handler s' else (Inl e, s')
      | (Inr x, s') \<Rightarrow> (Inr x, s'))"

text \<open>
  \<open>try: m finally: cleanup\<close>: the cleanup runs whatever \<open>m\<close> did; an exception of the
  cleanup replaces the outcome of \<open>m\<close>, otherwise the outcome of \<open>m\<close> stands.
\<close>

definition try_finally :: "('w, 'a) prog \<Rightarrow> ('w, unit) prog \<Rightarrow> ('w, 'a) prog" where
  "try_finally m cleanup s =
     (case m s of (r, s') \<Rightarrow>
        (case cleanup s' of
           (Inl e, s'') \<Rightarrow> (Inl e, s'')
         | (Inr _, s'') \<Rightarrow> (r, s'')))"

definition warn :: "pystr \<Rightarrow> ('w, unit) prog" where
  "warn msg s = (Inr (), (fst s, snd s @ [Warned msg]))"

definition call :: "'w os \<Rightarrow> req \<Rightarrow> ('w, rsp) prog" where
  "call os r s =
     (case os r (fst s) of (a, w') \<Rightarrow>
        ((case a of RRaise e \<Rightarrow> Inl e | _ \<Rightarrow> Inr a), (w', snd s @ [Called r a])))"

text \<open>
  The library calls, each with the kind of value it returns. A response of another kind
  is not a behaviour of the library; the model turns it into a \<open>TypeError\<close>.
\<close>

definition path_exists :: "'w os \<Rightarrow> path \<Rightarrow> ('w, bool) prog" where
  "path_exists os p = thn (call os (Exists p)) (\<lambda>a. case a of RBool b \<Rightarrow> ret b | _ \<Rightarrow> raise TypeError)"

definition is_dir :: "'w os \<Rightarrow> path \<Rightarrow> ('w, bool) prog" where
  "is_dir os p = thn (call os (IsDir p)) (\<lambda>a. case a of RBool b \<Rightarrow> ret b | _ \<Rightarrow> raise TypeError)"

definition is_symlink :: "'w os \<Rightarrow> path \<Rightarrow> ('w, bool) prog" where
  "is_symlink os p =
     thn (call os (IsSymlink p)) (\<lambda>a. case a of RBool b \<Rightarrow> ret b | _ \<Rightarrow> raise TypeError)"

definition read_text :: "'w os \<Rightarrow> path \<Rightarrow> ('w, pystr) prog" where
  "read_text os p = thn (call os (ReadText p)) (\<lambda>a. case a of RStr t \<Rightarrow> ret t | _ \<Rightarrow> raise TypeError)"

definition read_bytes :: "'w os \<Rightarrow> path \<Rightarrow> ('w, pystr) prog" where
  "read_bytes os p = thn (call os (ReadBytes p)) (\<lambda>a. case a of RStr t \<Rightarrow> ret t | _ \<Rightarrow> raise TypeError)"

definition iterdir :: "'w os \<Rightarrow> path \<Rightarrow> ('w, path list) prog" where
  "iterdir os p = thn (call os (Iterdir p)) (\<lambda>a. case a of RPaths ps \<Rightarrow> ret ps | _ \<Rightarrow> raise TypeError)"

definition which :: "'w os \<Rightarrow> pystr \<Rightarrow> ('w, pystr option) prog" where
  "which os name =
     thn (call os (Which name)) (\<lambda>a. case a of RStrOpt r \<Rightarrow> ret r | _ \<Rightarrow> raise TypeError)"

definition getenv :: "'w os \<Rightarrow> pystr \<Rightarrow> ('w, pystr option) prog" where
  "getenv os name =
     thn (call os (GetEnv name)) (\<lambda>a. case a of RStrOpt r \<Rightarrow> ret r | _ \<Rightarrow> raise TypeError)"

definition environ_copy :: "'w os \<Rightarrow> ('w, dict) prog" where
  "environ_copy os = thn (call os Environ) (\<lambda>a. case a of RDict d \<Rightarrow> ret d | _ \<Rightarrow> raise TypeError)"

text \<open>
  \<open>Path(args.playbook_path).resolve() if args.playbook_path else
  Path(__file__).resolve().parent\<close>, the first lines of both workflows.
\<close>

definition resolve_playbook_path :: "'w os \<Rightarrow> pystr option \<Rightarrow> ('w, path) prog" where
  "resolve_playbook_path os p =
     thn (call os (if truthy p then ResolvePath (the p) else ScriptDir))
       (\<lambda>a. case a of RStr t \<Rightarrow> ret t | _ \<Rightarrow> raise TypeError)"

text \<open>\<open>int(s)\<close>; it raises \<open>ValueError\<close> on a string that is not a number.\<close>

definition parse_int :: "'w os \<Rightarrow> pystr \<Rightarrow> ('w, int) prog" where
  "parse_int os s =
     thn (call os (ParseInt s)) (\<lambda>a. case a of RInt i \<Rightarrow> ret i | _ \<Rightarrow> raise TypeError)"

text \<open>A call whose value the source does not use.\<close>

definition perform :: "'w os \<Rightarrow> req \<Rightarrow> ('w, unit) prog" where
  "perform os r = thn (call os r) (\<lambda>_. ret ())"

text \<open>
  \<open>subprocess.run(args, check=..., capture_output=capture, text=True, env=env)\<close>: the host
  answers with the exit status and the captured output, or with the exception of a
  process that could not be started. With \<open>check=True\<close> a status other than zero raises
  \<open>CalledProcessError\<close>. The result is the captured standard output.
\<close>

definition subprocess_run ::
  "'w os \<Rightarrow> pystr list \<Rightarrow> bool \<Rightarrow> bool \<Rightarrow> dict option \<Rightarrow> ('w, pystr) prog" where
  "subprocess_run os args check capture env =
     thn (call os (Subprocess args capture env))
       (\<lambda>a. case a of
          RExit status out \<Rightarrow> if check \<and> status \<noteq> 0 then raise CalledProcessError else ret out
        | _ \<Rightarrow> raise TypeError)"

text \<open>\<open>_run_subprocess(args, capture=..., env=...)\<close>, the default runner.\<close>

definition run_subprocess :: "'w os \<Rightarrow> pystr list \<Rightarrow> bool \<Rightarrow> dict option \<Rightarrow> ('w, pystr) prog" where
  "run_subprocess os args capture env = subprocess_run os args True capture env"

text \<open>
  \<open>str(Path(a) / b)\<close> for an absolute path \<open>a\<close> as \<open>Path.resolve()\<close> returns it and a
  relative path \<open>b\<close> in normal form (no empty and no \<open>.\<close> component, no slash at
  its end), which is what every join of \<open>sandbox.py\<close> is; 47 is \<open>/\<close>. Only a root
  (\<open>/\<close> or \<open>//\<close>) ends with a slash, and then none is added.
\<close>

definition pjoin :: "path \<Rightarrow> pystr \<Rightarrow> path" where
  "pjoin a b = (if a \<noteq> [] \<and> last a = 47 then a @ b else a @ [47] @ b)"

text \<open>\<open>d[k] = v\<close> and \<open>d.update(e)\<close> on dictionaries, which keep the order of insertion.\<close>

definition dict_set :: "pystr \<Rightarrow> pystr \<Rightarrow> dict \<Rightarrow> dict" where
  "dict_set k v d = AList.update k v d"

definition dict_update :: "dict \<Rightarrow> dict \<Rightarrow> dict" where
  "dict_update d e = fold (\<lambda>(k, v). dict_set k v) e d"

definition dict_get :: "dict \<Rightarrow> pystr \<Rightarrow> pystr option" where
  "dict_get d k = map_of d k"

section \<open>The settings file\<close>

text \<open>
  The loop of \<open>load_env_file\<close> over the lines of the file: a line is stripped; blank lines
  and lines that start with \<open>#\<close> are skipped, and so are lines without \<open>=\<close>; any other
  line is split at its first \<open>=\<close> and the stripped key is bound to the stripped value.
\<close>

fun load_env_loop :: "pystr list \<Rightarrow> dict \<Rightarrow> dict" where
  "load_env_loop [] data = data"
| "load_env_loop (raw_line # rest) data =
     (let line = strip raw_line in
      if line = [] \<or> starts_with_hash line then load_env_loop rest data
      else if \<not> has_eq line then load_env_loop rest data
      else (case split_eq line of (key, val) \<Rightarrow>
              load_env_loop rest (dict_set (strip key) (strip val) data)))"

definition load_env_file :: "'w os \<Rightarrow> path \<Rightarrow> ('w, dict) prog" where
  "load_env_file os p =
     thn (path_exists os p) (\<lambda>ex.
       if \<not> ex then ret []
       else thn (read_text os p) (\<lambda>text. ret (load_env_loop (splitlines text) [])))"

text \<open>
  \<open>write_env_file\<close>: one line \<open>key=value\<close> for each item, the items sorted (as pairs, so
  by key), joined by line feeds (code point 10), with a last line feed.
\<close>

definition env_line :: "pystr \<times> pystr \<Rightarrow> pystr" where
  "env_line kv = fst kv @ [61] @ snd kv"

definition env_text :: "dict \<Rightarrow> pystr" where
  "env_text vals = py_join [10] (map env_line (sort vals)) @ [10]"

definition write_env_file :: "'w os \<Rightarrow> path \<Rightarrow> dict \<Rightarrow> ('w, unit) prog" where
  "write_env_file os p vals = perform os (WriteText p (env_text vals))"

text \<open>\<open>set_env_vars\<close>: every loaded item is put into \<open>os.environ\<close>, in the order loaded.\<close>

fun put_all :: "'w os \<Rightarrow> dict \<Rightarrow> ('w, unit) prog" where
  "put_all os [] = ret ()"
| "put_all os ((k, v) # rest) = thn (perform os (PutEnv k v)) (\<lambda>_. put_all os rest)"

definition set_env_vars :: "'w os \<Rightarrow> path \<Rightarrow> ('w, unit) prog" where
  "set_env_vars os p = thn (load_env_file os p) (\<lambda>env_vars. put_all os env_vars)"

text \<open>
  The settings that the file format can hold: keys are unique; every key and value is
  stripped and has no line boundary in it; a key has no \<open>=\<close> in it and does not start
  with \<open>#\<close>.
\<close>

definition clean_value :: "pystr \<Rightarrow> bool" where
  "clean_value v \<longleftrightarrow> strip v = v \<and> (\<forall>c\<in>set v. \<not> is_linebreak c)"

definition clean_key :: "pystr \<Rightarrow> bool" where
  "clean_key k \<longleftrightarrow> clean_value k \<and> 61 \<notin> set k \<and> \<not> starts_with_hash k"

definition storable :: "dict \<Rightarrow> bool" where
  "storable m \<longleftrightarrow> distinct (map fst m) \<and> (\<forall>kv\<in>set m. clean_key (fst kv) \<and> clean_value (snd kv))"

section \<open>A mock host\<close>

text \<open>
  A host for examples, made like the mocks of the unit tests of the repository: it
  answers \<open>shutil.which\<close> by a table and every other request with the next response of
  a recorded session, whatever the request is. Its state is the rest of the recording;
  when the recording is used up it raises \<open>OSError\<close>.
\<close>

fun mock_os :: "(pystr \<Rightarrow> pystr option) \<Rightarrow> rsp list os" where
  "mock_os inst (Which name) s = (RStrOpt (inst name), s)"
| "mock_os inst r [] = (RRaise OSError, [])"
| "mock_os inst r (a # rest) = (a, rest)"

definition nothing_installed :: "pystr \<Rightarrow> pystr option" where
  "nothing_installed name = None"

text \<open>Settings and a settings file used as examples.\<close>

definition sample_settings :: dict where
  "sample_settings = [(py ''B'', py ''2''), (py ''A'', py ''x=y'')]"

definition padded_settings :: dict where
  "padded_settings = [(py ''A'', py '' x'')]"

definition env_path :: path where
  "env_path = py ''.env''"

definition sample_env_text :: pystr where
  "sample_env_text = py ''# settings'' @ [10] @ py ''A = 1'' @ [10] @ py ''orphan'' @ [10]"

section \<open>Constants of sandbox.py\<close>

definition SUCCESS :: int where "SUCCESS = 0"
definition UNHANDLED_EXCEPTION :: int where "UNHANDLED_EXCEPTION = 1"
definition MISSING_DEPENDENCY :: int where "MISSING_DEPENDENCY = 2"
definition NO_PYTHON :: int where "NO_PYTHON = 3"
definition NO_RUNTIME :: int where "NO_RUNTIME = 4"

definition DEFAULT_CONTAINER_RUNTIME :: pystr where "DEFAULT_CONTAINER_RUNTIME = py ''podman''"
definition DEFAULT_CONTAINER_NAME :: pystr where "DEFAULT_CONTAINER_NAME = py ''ansible_target''"
definition DEFAULT_CONTAINER_IMAGE :: pystr where
  "DEFAULT_CONTAINER_IMAGE = py ''ansible_target:latest''"
definition DEFAULT_HOST_PORT :: int where "DEFAULT_HOST_PORT = 2222"
definition DEFAULT_SSH_PORT :: int where "DEFAULT_SSH_PORT = 22"
definition DEFAULT_SSH_DIR :: pystr where "DEFAULT_SSH_DIR = py ''ssh_keys''"
definition DEFAULT_KEY_BASENAME :: pystr where "DEFAULT_KEY_BASENAME = py ''ansible_target''"
definition DEFAULT_VAULT_PASSWORD_FILE :: pystr where
  "DEFAULT_VAULT_PASSWORD_FILE = py ''vault-pw.txt''"
definition DEFAULT_LOG_FILE :: pystr where "DEFAULT_LOG_FILE = py ''ansible.log''"
definition PLAYBOOK_FILE :: pystr where "PLAYBOOK_FILE = py ''playbooks/sample_playbook.yml''"
definition INVENTORY_FILE :: pystr where "INVENTORY_FILE = py ''inventory/main.yml''"

definition ANSIBLE_ENV_DEFAULTS :: dict where
  "ANSIBLE_ENV_DEFAULTS =
     [(py ''ANSIBLE_DISPLAY_ARGS_TO_STDOUT'', py ''false''),
      (py ''ANSIBLE_CALLBACKS_ENABLED'', py ''profile_tasks''),
      (py ''ANSIBLE_LOAD_CALLBACK_PLUGINS'', py ''true''),
      (py ''ANSIBLE_LOG_PATH'', DEFAULT_LOG_FILE),
      (py ''ANSIBLE_ROLES_PATH'', py ''roles''),
      (py ''ANSIBLE_FILTER_PLUGINS'', py ''plugins''),
      (py ''ANSIBLE_LIBRARY'', py ''library''),
      (py ''ANSIBLE_CALLBACK_RESULT_FORMAT'', py ''yaml'')]"

text \<open>The parsed command line (\<open>argparse.Namespace\<close>) of both subcommands.\<close>

record args =
  arg_playbook_path :: "pystr option"
  arg_env_file :: pystr
  arg_container_runtime :: "pystr option"
  arg_container_name :: "pystr option"
  arg_container_host_port :: "pystr option"
  arg_skip_container :: bool
  arg_limit :: "pystr option"

text \<open>
  \<open>a or d\<close> for an optional string \<open>a\<close> and a non-empty string \<open>d\<close>: \<open>a\<close> when it is
  true, else \<open>d\<close>.
\<close>

definition or_default :: "pystr option \<Rightarrow> pystr \<Rightarrow> pystr" where
  "or_default a d = (case a of None \<Rightarrow> d | Some s \<Rightarrow> if s \<noteq> [] then s else d)"

text \<open>\<open>name in text\<close> for two strings: \<open>name\<close> occurs in \<open>text\<close> as a substring.\<close>

fun contains :: "pystr \<Rightarrow> pystr \<Rightarrow> bool" where
  "contains [] name = (name = [])"
| "contains (c # cs) name = (take (length name) (c # cs) = name \<or> contains cs name)"

text \<open>
  \<open>str(Path(p).parent)\<close> for an absolute path \<open>p\<close> as \<open>Path.resolve()\<close> returns it:
  the last component is dropped; the parent of a root is the root, and a path that starts
  with exactly two slashes has the root \<open>//\<close>.
\<close>

definition parent :: "path \<Rightarrow> path" where
  "parent p =
     (let q = rev (tl (dropWhile (\<lambda>c. c \<noteq> 47) (rev p)))
      in if q = [] then [47]
         else if q = [47] \<and> take 2 p = [47, 47] then [47, 47]
         else q)"

section \<open>The activation workflow\<close>

text \<open>
  \<open>select_python\<close> with its call of \<open>logging.warning\<close> when nothing is selected.
\<close>

definition select_python_logged :: "(path \<times> version) list \<Rightarrow> ('w, path option) prog" where
  "select_python_logged candidates =
     (case select_python candidates of
        None \<Rightarrow> thn (warn (py ''No suitable Python found in candidates'')) (\<lambda>_. ret None)
      | Some best_path \<Rightarrow> ret (Some best_path))"

text \<open>
  \<open>find_python_candidates\<close> probes the machine (globbing, file modes, running each
  interpreter); it is one request here, answered with the list of candidates.
\<close>

definition find_python_candidates :: "'w os \<Rightarrow> ('w, (path \<times> version) list) prog" where
  "find_python_candidates os =
     thn (call os FindPythonCandidates)
       (\<lambda>a. case a of RCandidates cs \<Rightarrow> ret cs | _ \<Rightarrow> raise TypeError)"

definition build_activation_env :: "path \<Rightarrow> dict" where
  "build_activation_env playbook_path =
     dict_update
       (dict_update [(py ''PLAYBOOK_PATH'', playbook_path)] ANSIBLE_ENV_DEFAULTS)
       [(py ''ANSIBLE_VAULT_PASSWORD_FILE'', pjoin playbook_path DEFAULT_VAULT_PASSWORD_FILE),
        (py ''CONTAINER_RUNTIME'', DEFAULT_CONTAINER_RUNTIME),
        (py ''CONTAINER_HOST_PORT'', str_of_int DEFAULT_HOST_PORT),
        (py ''CONTAINER_NAME'', DEFAULT_CONTAINER_NAME)]"

definition venv_python_path :: "path \<Rightarrow> path" where
  "venv_python_path playbook_path = pjoin (pjoin (pjoin playbook_path (py ''.venv'')) (py ''bin'')) (py ''python'')"

definition ensure_venv :: "'w os \<Rightarrow> path \<Rightarrow> bool \<Rightarrow> ('w, path option) prog" where
  "ensure_venv os playbook_path unit_testing =
     (let venv_dir = pjoin playbook_path (py ''.venv'');
          venv_python = venv_python_path playbook_path
      in thn (path_exists os venv_python) (\<lambda>ex.
           if ex then ret (Some venv_python)
           else if unit_testing then ret None
           else thn (find_python_candidates os) (\<lambda>candidates.
             if candidates = [] then ret None
             else thn (select_python_logged candidates) (\<lambda>picked.
               case picked of
                 None \<Rightarrow> ret None
               | Some python \<Rightarrow>
                   thn (try_except
                          (thn (subprocess_run os [python, py ''-m'', py ''venv'', venv_dir]
                                  True False None) (\<lambda>_. ret True))
                          is_subprocess_error
                          (ret False)) (\<lambda>made.
                     if \<not> made then ret None
                     else thn (path_exists os venv_python)
                            (\<lambda>ex2. ret (if ex2 then Some venv_python else None)))))))"

text \<open>\<open>_venv_python\<close>.\<close>

definition venv_python_of :: "'w os \<Rightarrow> path \<Rightarrow> ('w, path option) prog" where
  "venv_python_of os playbook_path =
     (let candidate = venv_python_path playbook_path
      in thn (path_exists os candidate) (\<lambda>ex. ret (if ex then Some candidate else None)))"

definition install_requirements :: "'w os \<Rightarrow> path \<Rightarrow> ('w, unit) prog" where
  "install_requirements os venv_python =
     thn (subprocess_run os
            [venv_python, py ''-m'', py ''pip'', py ''install'', py ''--upgrade'', py ''pip'']
            True False None) (\<lambda>_.
     thn (subprocess_run os
            [venv_python, py ''-m'', py ''pip'', py ''install'', py ''-r'', py ''requirements.txt'']
            True False None) (\<lambda>_.
     thn (subprocess_run os
            [venv_python, py ''-m'', py ''pip'', py ''uninstall'', py ''-y'', py ''pytest-ansible'']
            False False None) (\<lambda>_. ret ())))"

text \<open>
  \<open>activate\<close> in two consecutive parts: \<open>activate_write_back\<close> is its end, from the
  loading of the settings file on, with the path of the playbook and the interpreter of
  the virtual environment as parameters.
\<close>

definition activate_write_back :: "'w os \<Rightarrow> args \<Rightarrow> path \<Rightarrow> path option \<Rightarrow> ('w, int) prog" where
  "activate_write_back os a playbook_path venv_python =
     thn (load_env_file os (arg_env_file a)) (\<lambda>loaded.
       let env_values = dict_update loaded (build_activation_env playbook_path);
           env_values = (case venv_python of
                           Some p \<Rightarrow> dict_set (py ''VENV_PYTHON'') p env_values
                         | None \<Rightarrow> env_values)
       in thn (write_env_file os (arg_env_file a) env_values) (\<lambda>_. ret SUCCESS))"

definition activate :: "'w os \<Rightarrow> args \<Rightarrow> ('w, int) prog" where
  "activate os a =
     thn (resolve_playbook_path os (arg_playbook_path a)) (\<lambda>playbook_path.
     thn (getenv os (py ''UNIT_TESTING'')) (\<lambda>ut.
     thn (venv_python_of os playbook_path) (\<lambda>found.
     thn (case found of
            None \<Rightarrow> thn (ensure_venv os playbook_path (truthy ut))
                      (\<lambda>venv_python. ret (venv_python, venv_python \<noteq> None))
          | Some p \<Rightarrow> ret (Some p, False)) (\<lambda>(venv_python, created).
     thn (case venv_python of
            Some p \<Rightarrow> if created then install_requirements os p else ret ()
          | None \<Rightarrow> ret ()) (\<lambda>_.
       activate_write_back os a playbook_path venv_python)))))"

section \<open>The helpers of the run workflow\<close>

definition detect_ansible :: "'w os \<Rightarrow> ('w, bool) prog" where
  "detect_ansible os = thn (which os (py ''ansible'')) (\<lambda>found. ret (truthy found))"

text \<open>
  \<open>detect_container_runtime\<close>: the list \<open>ordered\<close>, the loop that stops at the first
  candidate that \<open>shutil.which\<close> finds, and the volume option of the runtime found.
\<close>

definition search_order :: "pystr option \<Rightarrow> pystr list" where
  "search_order preferred =
     (let ordered = (case preferred of None \<Rightarrow> [] | Some p \<Rightarrow> if p \<noteq> [] then [p] else [])
      in ordered @ filter (\<lambda>r. r \<notin> set ordered) [py ''podman'', py ''docker''])"

fun find_runtime :: "'w os \<Rightarrow> pystr list \<Rightarrow> ('w, pystr option) prog" where
  "find_runtime os [] = ret None"
| "find_runtime os (candidate # rest) =
     thn (which os candidate) (\<lambda>found.
       if truthy found then ret (Some candidate) else find_runtime os rest)"

definition detect_container_runtime ::
  "'w os \<Rightarrow> pystr option \<Rightarrow> ('w, pystr option \<times> pystr option) prog" where
  "detect_container_runtime os preferred =
     thn (find_runtime os (search_order preferred)) (\<lambda>runtime.
       if \<not> truthy runtime
       then thn (warn (py ''No container runtime found'')) (\<lambda>_. ret (None, None))
       else ret (runtime,
              Some (if runtime = Some (py ''podman'') then py '':ro,z'' else py '':ro'')))"

text \<open>
  A runner is what the setup functions take as \<open>runner\<close>: it is called with the argument
  list, \<open>capture\<close> and \<open>env\<close>. The default runner is \<open>run_subprocess\<close>.
\<close>

type_synonym 'w runner = "pystr list \<Rightarrow> bool \<Rightarrow> dict option \<Rightarrow> ('w, pystr) prog"

definition keygen_args :: "path \<Rightarrow> pystr list" where
  "keygen_args key_path =
     [py ''ssh-keygen'', py ''-q'', py ''-t'', py ''ed25519'', py ''-N'', [], py ''-C'',
      py ''ansible@target'', py ''-f'', key_path]"

definition setup_ssh_keys ::
  "'w os \<Rightarrow> path \<Rightarrow> pystr \<Rightarrow> 'w runner \<Rightarrow> ('w, path \<times> path) prog" where
  "setup_ssh_keys os base_dir key_basename runner =
     (let ssh_dir = pjoin base_dir DEFAULT_SSH_DIR;
          key_path = pjoin ssh_dir key_basename;
          pub_path = pjoin ssh_dir (key_basename @ py ''.pub'');
          auth_keys = pjoin ssh_dir (py ''authorized_keys'')
      in thn (perform os (Mkdir ssh_dir)) (\<lambda>_.
         thn (perform os (Chmod ssh_dir 448)) (\<lambda>_.
         thn (path_exists os key_path) (\<lambda>key_exists.
         thn (if key_exists then perform os (Unlink key_path) else ret ()) (\<lambda>_.
         thn (path_exists os pub_path) (\<lambda>pub_exists.
         thn (if pub_exists then perform os (Unlink pub_path) else ret ()) (\<lambda>_.
         thn (runner (keygen_args key_path) False None) (\<lambda>_.
         thn (read_bytes os pub_path) (\<lambda>pub_bytes.
         thn (perform os (WriteBytes auth_keys pub_bytes)) (\<lambda>_.
         ret (key_path, auth_keys)))))))))))"

definition setup_vault :: "'w os \<Rightarrow> path \<Rightarrow> pystr \<Rightarrow> ('w, path) prog" where
  "setup_vault os playbook_path vault_file =
     (let target = pjoin playbook_path vault_file
      in thn (path_exists os target) (\<lambda>ex.
         thn (if \<not> ex then perform os (WriteText target (py ''password'' @ [10])) else ret ())
           (\<lambda>_. ret target)))"

text \<open>
  \<open>[p for p in roles_dir.iterdir() if p.is_dir() or p.is_symlink()]\<close>: \<open>is_symlink\<close> is
  asked only of an entry that is not a directory.
\<close>

fun role_entries_of :: "'w os \<Rightarrow> path list \<Rightarrow> ('w, path list) prog" where
  "role_entries_of os [] = ret []"
| "role_entries_of os (p # ps) =
     thn (is_dir os p) (\<lambda>d.
     thn (if d then ret True else is_symlink os p) (\<lambda>keep.
     thn (role_entries_of os ps) (\<lambda>rest. ret (if keep then p # rest else rest))))"

definition setup_roles :: "'w os \<Rightarrow> path \<Rightarrow> 'w runner \<Rightarrow> ('w, unit) prog" where
  "setup_roles os playbook_path runner =
     (let roles_dir = pjoin playbook_path (py ''roles'');
          requirements = pjoin roles_dir (py ''requirements.yml'');
          sibling_role = pjoin (parent playbook_path) (py ''ans_dev_sandbox_role'');
          link_path = pjoin roles_dir (py ''ans_dev_sandbox_role'');
          relative_target = py ''../../ans_dev_sandbox_role''
      in thn (path_exists os roles_dir) (\<lambda>roles_exist.
           if \<not> roles_exist then ret ()
           else thn (iterdir os roles_dir) (\<lambda>entries.
                thn (role_entries_of os entries) (\<lambda>role_entries.
                  if role_entries \<noteq> [] then ret ()
                  else thn (path_exists os requirements) (\<lambda>req_exists.
                    if \<not> req_exists then ret ()
                    else thn (path_exists os sibling_role) (\<lambda>sibling_exists.
                      if sibling_exists
                      then thn (path_exists os link_path) (\<lambda>link_exists.
                           thn (if link_exists then perform os (Unlink link_path) else ret ())
                             (\<lambda>_. perform os (SymlinkTo link_path relative_target)))
                      else thn (runner
                                  [py ''ansible-galaxy'', py ''install'', py ''--role-file'',
                                   requirements, py ''--roles-path'', roles_dir] False None)
                             (\<lambda>_. ret ())))))))"

text \<open>\<open>_has_collection\<close>, the local function of \<open>setup_collections\<close>.\<close>

definition has_collection :: "'w runner \<Rightarrow> pystr \<Rightarrow> ('w, bool) prog" where
  "has_collection runner name =
     try_except
       (thn (runner [py ''ansible-galaxy'', py ''collection'', py ''list''] True None)
          (\<lambda>stdout. ret (contains stdout name)))
       is_subprocess_error
       (ret False)"

definition setup_collections :: "'w runner \<Rightarrow> ('w, unit) prog" where
  "setup_collections runner =
     thn (has_collection runner (py ''ansible.posix'')) (\<lambda>posix.
     thn (if \<not> posix
          then thn (runner [py ''ansible-galaxy'', py ''collection'', py ''install'',
                            py ''ansible.posix''] False None) (\<lambda>_. ret ())
          else ret ()) (\<lambda>_.
     thn (has_collection runner (py ''community.general'')) (\<lambda>general.
       if \<not> general
       then thn (runner [py ''ansible-galaxy'', py ''collection'', py ''install'',
                         py ''community.general''] False None) (\<lambda>_. ret ())
       else ret ())))"

definition build_args :: "pystr \<Rightarrow> pystr \<Rightarrow> path \<Rightarrow> pystr list" where
  "build_args runtime container_name playbook_path =
     [runtime, py ''build'', py ''--file'', py ''containerfile'', py ''--tag'', container_name,
      playbook_path]"

definition stop_args :: "pystr \<Rightarrow> pystr \<Rightarrow> pystr list" where
  "stop_args runtime container_name = [runtime, py ''container'', py ''stop'', container_name]"

definition start_args ::
  "pystr \<Rightarrow> pystr \<Rightarrow> path \<Rightarrow> pystr \<Rightarrow> int \<Rightarrow> int \<Rightarrow> pystr \<Rightarrow> pystr list" where
  "start_args runtime volume_opt playbook_path container_name host_port ssh_port img =
     [runtime, py ''run'', py ''--detach'', py ''--hostname'', container_name, py ''--name'',
      container_name, py ''--publish'', str_of_int host_port @ py '':'' @ str_of_int ssh_port,
      py ''--rm'', py ''--volume'',
      pjoin playbook_path DEFAULT_SSH_DIR @ py '':/root/.ssh'' @ volume_opt, img]"

definition setup_container ::
  "pystr \<Rightarrow> pystr \<Rightarrow> path \<Rightarrow> pystr \<Rightarrow> int \<Rightarrow> int \<Rightarrow> pystr \<Rightarrow> 'w runner \<Rightarrow> ('w, unit) prog"
  where
  "setup_container runtime volume_opt playbook_path container_name host_port ssh_port img runner =
     thn (runner (build_args runtime container_name playbook_path) False None) (\<lambda>_.
     thn (try_except
            (thn (runner (stop_args runtime container_name) False None) (\<lambda>_. ret ()))
            is_subprocess_error
            (ret ())) (\<lambda>_.
     thn (runner
            (start_args runtime volume_opt playbook_path container_name host_port ssh_port img)
            False None) (\<lambda>_. ret ())))"

definition playbook_args :: "path \<Rightarrow> path \<Rightarrow> pystr option \<Rightarrow> pystr list" where
  "playbook_args inventory playbook lim =
     [py ''ansible-playbook'', py ''--inventory'', inventory, playbook]
     @ (case lim of None \<Rightarrow> [] | Some l \<Rightarrow> if l \<noteq> [] then [py ''-l'', l] else [])"

definition run_playbook ::
  "'w os \<Rightarrow> path \<Rightarrow> path \<Rightarrow> dict \<Rightarrow> pystr option \<Rightarrow> 'w runner \<Rightarrow> ('w, unit) prog" where
  "run_playbook os inventory playbook extra_env lim runner =
     thn (environ_copy os) (\<lambda>env0.
       let env = dict_update env0 extra_env
       in thn (runner (playbook_args inventory playbook lim) False (Some env)) (\<lambda>_. ret ()))"

text \<open>
  The candidates that \<open>detect_container_runtime\<close> probes, in order, on a host where
  \<open>shutil.which\<close> answers by the table \<open>inst\<close>: the search stops at the first one found.
\<close>

fun probes :: "(pystr \<Rightarrow> pystr option) \<Rightarrow> pystr list \<Rightarrow> pystr list" where
  "probes inst [] = []"
| "probes inst (c # cs) = c # (if truthy (inst c) then [] else probes inst cs)"

text \<open>A search path that holds both engines.\<close>

definition both_installed :: "pystr \<Rightarrow> pystr option" where
  "both_installed name =
     (if name = py ''podman'' then Some (py ''/usr/bin/podman'')
      else if name = py ''docker'' then Some (py ''/usr/bin/docker'') else None)"

section \<open>The run workflow\<close>

text \<open>
  The three blocks of \<open>run\<close> that resolve a setting have one shape:
  \<open>value = cli or settings.get(NAME) or DEFAULT\<close>, then a warning when the command line
  value and the value of the settings file are both true and differ.
\<close>

definition override_warning :: "pystr \<Rightarrow> pystr \<Rightarrow> pystr \<Rightarrow> pystr" where
  "override_warning name persisted cli =
     py ''Overriding '' @ name @ py '' from .env ('' @ persisted @ py '') with CLI value (''
       @ cli @ py '')''"

definition resolve_setting ::
  "pystr \<Rightarrow> pystr option \<Rightarrow> dict \<Rightarrow> pystr \<Rightarrow> ('w, pystr) prog" where
  "resolve_setting name cli settings dflt =
     (let val = or_default cli (or_default (dict_get settings name) dflt)
      in thn (case (cli, dict_get settings name) of
                (Some c, Some p) \<Rightarrow>
                  if c \<noteq> [] \<and> p \<noteq> [] \<and> c \<noteq> p then warn (override_warning name p c)
                  else ret ()
              | _ \<Rightarrow> ret ())
           (\<lambda>_. ret val))"

text \<open>The limit that \<open>run\<close> passes to \<open>run_playbook\<close>.\<close>

definition dispatched_limit :: "args \<Rightarrow> pystr option" where
  "dispatched_limit a =
     (if arg_skip_container a \<and> \<not> truthy (arg_limit a) then Some (py ''localhost'')
      else arg_limit a)"

text \<open>
  The body of the \<open>try\<close> statement of \<open>run\<close>. Its value is the local variable
  \<open>container_started\<close> together with the outcome of the body: the variable is set only
  after \<open>setup_container\<close> has returned.
\<close>

definition run_after_container ::
  "'w os \<Rightarrow> args \<Rightarrow> path \<Rightarrow> path \<Rightarrow> path \<Rightarrow> ('w, unit) prog" where
  "run_after_container os a playbook_path key_path vault_path =
     thn (setup_roles os playbook_path (run_subprocess os)) (\<lambda>_.
     thn (setup_collections (run_subprocess os)) (\<lambda>_.
       let extra_env =
             [(py ''ANSIBLE_PRIVATE_KEY_FILE'', key_path),
              (py ''ANSIBLE_HOST_KEY_CHECKING'', py ''False''),
              (py ''ANSIBLE_VAULT_PASSWORD_FILE'', vault_path)]
       in run_playbook os (pjoin playbook_path INVENTORY_FILE) (pjoin playbook_path PLAYBOOK_FILE)
            extra_env (dispatched_limit a) (run_subprocess os)))"

definition run_try_body ::
  "'w os \<Rightarrow> args \<Rightarrow> path \<Rightarrow> pystr \<Rightarrow> pystr option \<Rightarrow> pystr \<Rightarrow> int \<Rightarrow> path \<Rightarrow> path
     \<Rightarrow> ('w, bool \<times> (exn + unit)) prog" where
  "run_try_body os a playbook_path runtime volume_opt container_name host_port key_path vault_path s =
     (case (if \<not> arg_skip_container a
            then setup_container runtime (or_default volume_opt (py '':ro'')) playbook_path
                   container_name host_port DEFAULT_SSH_PORT DEFAULT_CONTAINER_IMAGE
                   (run_subprocess os)
            else ret ()) s of
        (Inl e, s1) \<Rightarrow> (Inr (False, Inl e), s1)
      | (Inr _, s1) \<Rightarrow>
          (case run_after_container os a playbook_path key_path vault_path s1 of
             (r, s2) \<Rightarrow> (Inr (\<not> arg_skip_container a, r), s2)))"

text \<open>The \<open>finally\<close> block of \<open>run\<close>.\<close>

definition run_finally :: "'w os \<Rightarrow> pystr \<Rightarrow> pystr \<Rightarrow> bool \<Rightarrow> ('w, unit) prog" where
  "run_finally os runtime container_name container_started =
     (if container_started
      then try_except
             (thn (run_subprocess os (stop_args runtime container_name) False None) (\<lambda>_. ret ()))
             is_subprocess_error
             (warn (py ''Failed to stop container '' @ container_name @ py '' during cleanup''))
      else ret ())"

text \<open>
  \<open>run\<close> in three consecutive parts. \<open>run_with\<close> is the workflow from the conversion
  of the host port to the end, with the three resolved settings as parameters (the
  conversion is \<open>try: int(host_port_str) except ValueError: return NO_RUNTIME\<close>);
  \<open>run_resolve\<close> is the resolution of the three settings, followed by \<open>run_with\<close>;
  \<open>run\<close> itself starts with the path of the playbook and the settings file.
\<close>

definition run_with :: "'w os \<Rightarrow> args \<Rightarrow> path \<Rightarrow> pystr \<Rightarrow> pystr \<Rightarrow> pystr \<Rightarrow> ('w, int) prog" where
  "run_with os a playbook_path runtime_preference container_name host_port_str =
     thn (try_except (thn (parse_int os host_port_str) (\<lambda>i. ret (Some i)))
            is_value_error (ret None)) (\<lambda>parsed.
       case parsed of
         None \<Rightarrow> ret NO_RUNTIME
       | Some host_port \<Rightarrow>
     thn (detect_container_runtime os (Some runtime_preference)) (\<lambda>(runtime, volume_opt).
       case (if truthy runtime then runtime else None) of
         None \<Rightarrow> ret NO_RUNTIME
       | Some runtime \<Rightarrow>
     thn (detect_ansible os) (\<lambda>ansible.
       if \<not> ansible then ret MISSING_DEPENDENCY
       else
     thn (setup_ssh_keys os playbook_path DEFAULT_KEY_BASENAME (run_subprocess os))
       (\<lambda>(key_path, auth_keys).
     thn (setup_vault os playbook_path DEFAULT_VAULT_PASSWORD_FILE) (\<lambda>vault_path.
     thn (run_try_body os a playbook_path runtime volume_opt container_name host_port
            key_path vault_path) (\<lambda>(container_started, outcome).
     thn (run_finally os runtime container_name container_started) (\<lambda>_.
       case outcome of Inl e \<Rightarrow> raise e | Inr _ \<Rightarrow> ret SUCCESS)))))))"

definition run_resolve :: "'w os \<Rightarrow> args \<Rightarrow> path \<Rightarrow> dict \<Rightarrow> ('w, int) prog" where
  "run_resolve os a playbook_path settings =
     thn (resolve_setting (py ''CONTAINER_RUNTIME'') (arg_container_runtime a) settings
            DEFAULT_CONTAINER_RUNTIME) (\<lambda>runtime_preference.
     thn (resolve_setting (py ''CONTAINER_NAME'') (arg_container_name a) settings
            DEFAULT_CONTAINER_NAME) (\<lambda>container_name.
     thn (resolve_setting (py ''CONTAINER_HOST_PORT'') (arg_container_host_port a) settings
            (str_of_int DEFAULT_HOST_PORT)) (\<lambda>host_port_str.
       run_with os a playbook_path runtime_preference container_name host_port_str)))"

definition run :: "'w os \<Rightarrow> args \<Rightarrow> ('w, int) prog" where
  "run os a =
     thn (resolve_playbook_path os (arg_playbook_path a)) (\<lambda>playbook_path.
     thn (load_env_file os (arg_env_file a)) (\<lambda>settings.
     thn (set_env_vars os (arg_env_file a)) (\<lambda>_.
       run_resolve os a playbook_path settings)))"

section \<open>The entry point\<close>

text \<open>
  \<open>main\<close> calls the function of the subcommand and turns an exception into the status
  \<open>UNHANDLED_EXCEPTION\<close>. Parsing of the command line and the set-up of logging are not
  modelled.
\<close>

datatype command = Activate | Run

definition main :: "'w os \<Rightarrow> command \<Rightarrow> args \<Rightarrow> 'w st \<Rightarrow> int \<times> 'w st" where
  "main os cmd a s =
     (case (case cmd of Activate \<Rightarrow> activate os a | Run \<Rightarrow> run os a) s of
        (Inr status, s') \<Rightarrow> (status, s')
      | (Inl e, s') \<Rightarrow> (UNHANDLED_EXCEPTION, s'))"

section \<open>Reading the trace\<close>

text \<open>
  The events of the trace that run an external command; among them the start of the
  container (\<open><runtime> run ...\<close>) and a stop of the container
  (\<open><runtime> container stop <name>\<close>). \<open>started_ok\<close> is a start that exited with
  status zero.
\<close>

definition is_subprocess_event :: "event \<Rightarrow> bool" where
  "is_subprocess_event e = (case e of Called (Subprocess _ _ _) _ \<Rightarrow> True | _ \<Rightarrow> False)"

definition is_start_args :: "pystr list \<Rightarrow> bool" where
  "is_start_args xs = (case xs of _ # b # _ \<Rightarrow> b = py ''run'' | _ \<Rightarrow> False)"

definition is_stop_args :: "pystr list \<Rightarrow> bool" where
  "is_stop_args xs = (case xs of [_, b, c, _] \<Rightarrow> b = py ''container'' \<and> c = py ''stop'' | _ \<Rightarrow> False)"

definition is_start_event :: "event \<Rightarrow> bool" where
  "is_start_event e = (case e of Called (Subprocess xs _ _) _ \<Rightarrow> is_start_args xs | _ \<Rightarrow> False)"

definition is_stop_event :: "event \<Rightarrow> bool" where
  "is_stop_event e = (case e of Called (Subprocess xs _ _) _ \<Rightarrow> is_stop_args xs | _ \<Rightarrow> False)"

definition started_ok :: "event \<Rightarrow> bool" where
  "started_ok e =
     (case e of Called (Subprocess xs _ _) (RExit status _) \<Rightarrow> is_start_args xs \<and> status = 0
      | _ \<Rightarrow> False)"


text \<open>
  \<open>holds G m\<close>: whenever \<open>m\<close> is run, it extends the trace by some events \<open>evs\<close>, and
  \<open>G\<close> holds of its outcome and \<open>evs\<close>. \<open>emits P m\<close>: every event that \<open>m\<close> adds
  satisfies \<open>P\<close>.
\<close>

definition holds :: "((exn + 'a) \<Rightarrow> event list \<Rightarrow> bool) \<Rightarrow> ('w, 'a) prog \<Rightarrow> bool" where
  "holds G m \<longleftrightarrow> (\<forall>s r s'. m s = (r, s') \<longrightarrow> (\<exists>evs. snd s' = snd s @ evs \<and> G r evs))"

definition emits :: "(event \<Rightarrow> bool) \<Rightarrow> ('w, 'a) prog \<Rightarrow> bool" where
  "emits P m \<longleftrightarrow> holds (\<lambda>r evs. \<forall>e\<in>set evs. P e) m"





text \<open>The argument lists of the external commands of a trace, in order.\<close>

fun commands :: "event list \<Rightarrow> pystr list list" where
  "commands [] = []"
| "commands (Called (Subprocess xs c env) ans # es) = xs # commands es"
| "commands (e # es) = commands es"

section \<open>The resolution of the settings and the limit, in the words of the specification\<close>



text \<open>
  The dispatch of the playbook is the one command that is run with an environment of its
  own. \<open>limit_words\<close> is what the specification expects at the end of its command line:
  \<open>-l\<close> and the limit of the caller when one is supplied, \<open>-l localhost\<close> in
  container-skip mode when none is supplied, and nothing otherwise.
\<close>

definition is_dispatch_event :: "event \<Rightarrow> bool" where
  "is_dispatch_event e = (case e of Called (Subprocess _ _ (Some _)) _ \<Rightarrow> True | _ \<Rightarrow> False)"

definition limit_words :: "args \<Rightarrow> pystr list" where
  "limit_words a =
     (if truthy (arg_limit a) then [py ''-l'', the (arg_limit a)]
      else if arg_skip_container a then [py ''-l'', py ''localhost'']
      else [])"

definition dispatch_ok :: "args \<Rightarrow> event \<Rightarrow> bool" where
  "dispatch_ok a e =
     (case e of
        Called (Subprocess xs _ (Some _)) _ \<Rightarrow>
          4 \<le> length xs \<and> take 2 xs = [py ''ansible-playbook'', py ''--inventory''] \<and>
          drop 4 xs = limit_words a
      | _ \<Rightarrow> True)"

text \<open>
  What the run workflow guarantees about the dispatch: every command that is run with an
  environment of its own is the playbook command with the expected limit, and a run that
  returns \<open>SUCCESS\<close> has dispatched the playbook.
\<close>

definition dispatch_goal :: "args \<Rightarrow> (exn + int) \<Rightarrow> event list \<Rightarrow> bool" where
  "dispatch_goal a r evs \<longleftrightarrow>
     (\<forall>e\<in>set evs. dispatch_ok a e) \<and> (r = Inr SUCCESS \<longrightarrow> (\<exists>e\<in>set evs. is_dispatch_event e))"

text \<open>
  The keys that the write-back of \<open>activate\<close> supplies, each with its value: the keys of
  \<open>build_activation_env\<close>, and \<open>VENV_PYTHON\<close> when there is a virtual environment.
  \<open>is_warning\<close> holds of the events that are warnings.
\<close>

definition supplied :: "path \<Rightarrow> path option \<Rightarrow> pystr \<Rightarrow> pystr option" where
  "supplied playbook_path venv_python k =
     (if k = py ''VENV_PYTHON'' \<and> venv_python \<noteq> None then venv_python
      else dict_get (build_activation_env playbook_path) k)"

definition is_warning :: "event \<Rightarrow> bool" where
  "is_warning e = (case e of Warned _ \<Rightarrow> True | _ \<Rightarrow> False)"

section \<open>Hosts and command lines used as examples\<close>

text \<open>
  A host that has podman, docker and ansible installed, and the arguments of
  \<open>sandbox.py run\<close> and of \<open>sandbox.py run --skip-container\<close> with every option left
  at its default.
\<close>

definition tools_installed :: "pystr \<Rightarrow> pystr option" where
  "tools_installed name =
     (if name = py ''podman'' \<or> name = py ''docker'' \<or> name = py ''ansible''
      then Some (py ''/usr/bin/'' @ name) else None)"

definition plain_args :: args where
  "plain_args =
     \<lparr>arg_playbook_path = None, arg_env_file = py ''.env'', arg_container_runtime = None,
      arg_container_name = None, arg_container_host_port = None, arg_skip_container = False,
      arg_limit = None\<rparr>"

definition skip_args :: args where
  "skip_args = plain_args\<lparr>arg_skip_container := True\<rparr>"

text \<open>
  The answers of the host, in the order of the requests, in a session of \<open>run\<close> in a
  fresh checkout in \<open>/srv/sandbox\<close> (no settings file, no keys, no vault password file, no
  roles directory, no collection installed), up to the set-up of the vault password file.
\<close>

definition fresh_checkout :: "rsp list" where
  "fresh_checkout =
     [RStr (py ''/srv/sandbox''), RBool False, RBool False, RInt 2222,
      RNone, RNone, RBool False, RBool False, RExit 0 [], RStr (py ''PUBLIC''), RNone,
      RBool False, RNone]"

text \<open>
  The rest of the session. With the container: the image is built, the stop command that
  precedes the start fails (there is no such container), the container starts, the
  collections are installed, the playbook fails with status 2, the container is stopped.
  Without the container: the collections are installed and the playbook succeeds.
\<close>

definition failing_session :: "rsp list" where
  "failing_session =
     fresh_checkout @
     [RExit 0 [], RExit 1 [], RExit 0 [],
      RBool False, RExit 0 [], RExit 0 [], RExit 0 [], RExit 0 [],
      RDict [], RExit 2 [], RExit 0 []]"

definition skip_session :: "rsp list" where
  "skip_session =
     fresh_checkout @
     [RBool False, RExit 0 [], RExit 0 [], RExit 0 [], RExit 0 [],
      RDict [], RExit 0 []]"



text \<open>
  The answers of the host in a session of \<open>activate\<close> in a fresh checkout (no virtual
  environment, \<open>UNIT_TESTING\<close> not set, no settings file) on a machine whose only
  interpreter is Python 3.9: the directory of the script, the variable, the two checks
  for the interpreter of the virtual environment, the candidates, the check for the
  settings file, and the write of the settings file.
\<close>

definition old_candidates :: "(path \<times> version) list" where
  "old_candidates = [(py ''/usr/bin/python3.9'', [3, 9, 18])]"

definition no_python_session :: "rsp list" where
  "no_python_session =
     [RStr (py ''/srv/sandbox''), RStrOpt None, RBool False, RBool False,
      RCandidates old_candidates, RBool False, RNone]"

text \<open>
  Two settings files, and for each the answers of the host in a session of the write-back
  of \<open>activate\<close>: the file exists, its text, and the write.
\<close>

definition editor_env_text :: pystr where
  "editor_env_text = py ''EDITOR=vi'' @ [10]"

definition docker_env_text :: pystr where
  "docker_env_text = py ''CONTAINER_RUNTIME=docker'' @ [10]"

definition editor_session :: "rsp list" where
  "editor_session = [RBool True, RStr editor_env_text, RNone]"

definition docker_session :: "rsp list" where
  "docker_session = [RBool True, RStr docker_env_text, RNone]"

section \<open>Facts about strings\<close>

lemma py_eq_iff: "py a = py b \<longleftrightarrow> a = b"
  unfolding py_def by (simp add: inj_map_eq_map inj_on_def)

section \<open>Facts about the string operations\<close>

lemma linebreak_is_space: "is_linebreak c \<Longrightarrow> is_space c"
  by (auto simp: is_linebreak_def is_space_def)

lemma strip_Nil [simp]: "strip [] = []"
  by (simp add: strip_def)

lemma strip_fixed:
  "s = [] \<or> (\<not> is_space (hd s) \<and> \<not> is_space (last s)) \<Longrightarrow> strip s = s"
proof (cases s)
  case Nil
  then show ?thesis by simp
next
  case (Cons a t)
  assume "s = [] \<or> (\<not> is_space (hd s) \<and> \<not> is_space (last s))"
  with Cons have h: "\<not> is_space a" "\<not> is_space (last s)" by auto
  have 1: "dropWhile is_space s = s" using h(1) Cons by simp
  have "rev s = last s # rev (butlast s)"
    using Cons by (metis append_butlast_last_id list.distinct(1) rev.simps(2) rev_rev_ident rev_swap singleton_rev_conv rev_append)
  then have 2: "dropWhile is_space (rev s) = rev s"
    using h(2) by (metis dropWhile.simps(2))
  show ?thesis by (simp add: strip_def 1 2)
qed

lemma strip_ends:
  "strip s \<noteq> [] \<Longrightarrow> \<not> is_space (hd (strip s)) \<and> \<not> is_space (last (strip s))"
proof -
  assume ne: "strip s \<noteq> []"
  let ?a = "dropWhile is_space s"
  let ?b = "dropWhile is_space (rev ?a)"
  have b_ne: "?b \<noteq> []" using ne by (simp add: strip_def)
  then have hb: "\<not> is_space (hd ?b)" by (rule hd_dropWhile)
  have "last (strip s) = hd ?b" using b_ne by (simp add: strip_def last_rev)
  with hb have l: "\<not> is_space (last (strip s))" by simp
  have a_ne: "?a \<noteq> []" using b_ne by (metis dropWhile.simps(1) rev.simps(1))
  then have ha: "\<not> is_space (hd ?a)" by (rule hd_dropWhile)
  obtain xs where xs: "rev ?a = xs @ ?b"
    by (metis takeWhile_dropWhile_id)
  then have "?a = rev ?b @ rev xs" by (metis rev_append rev_rev_ident)
  then have "hd ?a = hd (rev ?b)" using b_ne by (metis hd_append2 rev_is_Nil_conv)
  then have "\<not> is_space (hd (strip s))" using ha by (simp add: strip_def)
  with l show ?thesis by simp
qed

lemma strip_idem: "strip (strip s) = strip s"
  by (rule strip_fixed) (use strip_ends [of s] in blast)

lemma strip_subset: "set (strip s) \<subseteq> set s"
  unfolding strip_def by (metis set_dropWhileD set_rev subsetI)

lemma in_strip_iff: "\<not> is_space c \<Longrightarrow> c \<in> set (strip s) \<longleftrightarrow> c \<in> set s"
proof -
  assume c: "\<not> is_space c"
  have d: "c \<in> set (dropWhile is_space xs) \<longleftrightarrow> c \<in> set xs" for xs
  proof
    assume "c \<in> set (dropWhile is_space xs)" then show "c \<in> set xs" by (rule set_dropWhileD)
  next
    assume "c \<in> set xs"
    then show "c \<in> set (dropWhile is_space xs)"
      using c by (induction xs) auto
  qed
  show ?thesis by (simp add: strip_def d)
qed

lemma splitlines_from_line:
  "\<forall>c\<in>set l. \<not> is_linebreak c \<Longrightarrow>
   splitlines_from cur (l @ 10 # rest) = (cur @ l) # splitlines_from [] rest"
proof (induction l arbitrary: cur)
  case Nil
  show ?case by (cases rest) (simp_all add: is_linebreak_def)
next
  case (Cons a l)
  from Cons.prems have a: "\<not> is_linebreak a" and l: "\<forall>c\<in>set l. \<not> is_linebreak c" by simp_all
  from a have a13: "a \<noteq> 13" by (auto simp: is_linebreak_def)
  obtain d cs where dc: "l @ 10 # rest = d # cs" by (cases "l @ 10 # rest") auto
  have "splitlines_from cur ((a # l) @ 10 # rest) = splitlines_from (cur @ [a]) (l @ 10 # rest)"
    using a a13 by (simp add: dc)
  also have "\<dots> = (cur @ [a] @ l) # splitlines_from [] rest"
    using Cons.IH [OF l, of "cur @ [a]"] by simp
  finally show ?case by simp
qed

lemma splitlines_join:
  "ls \<noteq> [] \<Longrightarrow> \<forall>l\<in>set ls. \<forall>c\<in>set l. \<not> is_linebreak c \<Longrightarrow>
   splitlines (py_join [10] ls @ [10]) = ls"
proof (induction "[10] :: pystr" ls rule: py_join.induct)
  case 1 then show ?case by simp
next
  case (2 x)
  then show ?case using splitlines_from_line [of x "[]" "[]"] by (simp add: splitlines_def)
next
  case (3 x y ys)
  have "splitlines (py_join [10] (x # y # ys) @ [10])
      = splitlines_from [] (x @ 10 # (py_join [10] (y # ys) @ [10]))"
    by (simp add: splitlines_def)
  also have "\<dots> = x # splitlines_from [] (py_join [10] (y # ys) @ [10])"
    using splitlines_from_line [of x "[]"] "3.prems" by simp
  also have "\<dots> = x # y # ys" using "3" by (simp add: splitlines_def)
  finally show ?case .
qed

section \<open>Facts about interpreter selection\<close>

lemma select_python_loop_skip:
  "\<not> in_range v \<Longrightarrow>
   select_python_loop ((p, v) # rest) best bp = select_python_loop rest best bp"
  by (auto simp: in_range_def)

lemma select_python_loop_take:
  "in_range v \<Longrightarrow> (case best of None \<Rightarrow> True | Some b \<Rightarrow> b < v) \<Longrightarrow>
   select_python_loop ((p, v) # rest) best bp = select_python_loop rest (Some v) (Some p)"
  by (auto simp: in_range_def)

lemma select_python_loop_keep:
  "\<not> b < v \<Longrightarrow>
   select_python_loop ((p, v) # rest) (Some b) bp = select_python_loop rest (Some b) bp"
  by simp

lemma select_python_loop_none:
  "\<forall>c\<in>set cs. \<not> in_range (snd c) \<Longrightarrow> select_python_loop cs best bp = bp"
proof (induction cs)
  case Nil
  show ?case by simp
next
  case (Cons c cs)
  obtain p v where c: "c = (p, v)" by (cases c)
  from Cons.prems have "\<not> in_range v" by (simp add: c)
  with Cons show ?case by (simp add: c select_python_loop_skip del: select_python_loop.simps)
qed

lemma first_max_head:
  "in_range v \<Longrightarrow> \<forall>c\<in>set cs. in_range (snd c) \<longrightarrow> snd c \<le> v \<Longrightarrow>
   first_max ((p, v) # cs) p v"
  unfolding first_max_def by (rule exI [of _ "[]"], rule exI [of _ cs]) simp

lemma first_max_tail:
  assumes "first_max cs p v" and "in_range (snd c) \<longrightarrow> snd c < v"
  shows "first_max (c # cs) p v"
proof -
  from assms(1) obtain xs ys where h: "cs = xs @ (p, v) # ys" "in_range v"
    "\<forall>c\<in>set xs. in_range (snd c) \<longrightarrow> snd c < v"
    "\<forall>c\<in>set ys. in_range (snd c) \<longrightarrow> snd c \<le> v"
    unfolding first_max_def by blast
  show ?thesis unfolding first_max_def
    by (rule exI [of _ "c # xs"], rule exI [of _ ys]) (use h assms(2) in simp)
qed

text \<open>
  The loop invariant: started with a best version \<open>b\<close> held by \<open>p0\<close>, the loop either keeps
  \<open>p0\<close>, and then no in-range candidate exceeds \<open>b\<close>, or it returns a later candidate that
  exceeds \<open>b\<close> and is the first maximum of the list.
\<close>

lemma select_python_loop_some:
  "in_range b \<Longrightarrow>
   (select_python_loop cs (Some b) (Some p0) = Some p0 \<and>
      (\<forall>c\<in>set cs. in_range (snd c) \<longrightarrow> snd c \<le> b)) \<or>
   (\<exists>p v. select_python_loop cs (Some b) (Some p0) = Some p \<and> b < v \<and> first_max cs p v)"
proof (induction cs arbitrary: b p0)
  case Nil
  show ?case by simp
next
  case (Cons c cs)
  obtain q w where c: "c = (q, w)" by (cases c)
  show ?case
  proof (cases "in_range w \<and> b < w")
    case True
    then have rw: "in_range w" and bw: "b < w" by simp_all
    have step: "select_python_loop (c # cs) (Some b) (Some p0)
        = select_python_loop cs (Some w) (Some q)"
      unfolding c by (rule select_python_loop_take) (use rw bw in simp_all)
    from Cons.IH [OF rw, of q] show ?thesis
    proof
      assume h: "select_python_loop cs (Some w) (Some q) = Some q \<and>
        (\<forall>c\<in>set cs. in_range (snd c) \<longrightarrow> snd c \<le> w)"
      then have "first_max (c # cs) q w" unfolding c using first_max_head [OF rw] by blast
      with h bw step show ?thesis by auto
    next
      assume "\<exists>p v. select_python_loop cs (Some w) (Some q) = Some p \<and> w < v \<and> first_max cs p v"
      then obtain p v where h: "select_python_loop cs (Some w) (Some q) = Some p" "w < v"
        "first_max cs p v" by blast
      have "first_max (c # cs) p v"
        by (rule first_max_tail [OF h(3)]) (use h(2) in \<open>simp add: c\<close>)
      moreover have "b < v" using bw h(2) by simp
      ultimately show ?thesis using h(1) step by auto
    qed
  next
    case False
    have step: "select_python_loop (c # cs) (Some b) (Some p0)
        = select_python_loop cs (Some b) (Some p0)"
    proof (cases "in_range w")
      case True
      with False have "\<not> b < w" by simp
      then show ?thesis unfolding c by (rule select_python_loop_keep)
    next
      case False
      then show ?thesis unfolding c by (rule select_python_loop_skip)
    qed
    from False have le: "in_range w \<longrightarrow> w \<le> b" by auto
    from Cons.IH [OF Cons.prems, of p0] show ?thesis
    proof
      assume "select_python_loop cs (Some b) (Some p0) = Some p0 \<and>
        (\<forall>c\<in>set cs. in_range (snd c) \<longrightarrow> snd c \<le> b)"
      with le step show ?thesis by (simp add: c)
    next
      assume "\<exists>p v. select_python_loop cs (Some b) (Some p0) = Some p \<and> b < v \<and> first_max cs p v"
      then obtain p v where h: "select_python_loop cs (Some b) (Some p0) = Some p" "b < v"
        "first_max cs p v" by blast
      have "first_max (c # cs) p v"
        by (rule first_max_tail [OF h(3)]) (use h(2) le in \<open>auto simp: c\<close>)
      then show ?thesis using h(1,2) step by auto
    qed
  qed
qed

lemma select_python_loop_start:
  "\<exists>c\<in>set cs. in_range (snd c) \<Longrightarrow>
   \<exists>p v. select_python_loop cs None None = Some p \<and> first_max cs p v"
proof (induction cs)
  case Nil
  then show ?case by simp
next
  case (Cons c cs)
  obtain q w where c: "c = (q, w)" by (cases c)
  show ?case
  proof (cases "in_range w")
    case False
    then have step: "select_python_loop (c # cs) None None = select_python_loop cs None None"
      unfolding c by (rule select_python_loop_skip)
    from Cons.prems False have "\<exists>c\<in>set cs. in_range (snd c)" by (simp add: c)
    from Cons.IH [OF this] obtain p v where h:
      "select_python_loop cs None None = Some p" "first_max cs p v"
      by blast
    have "first_max (c # cs) p v"
      by (rule first_max_tail [OF h(2)]) (use False in \<open>simp add: c\<close>)
    then show ?thesis using h(1) step by auto
  next
    case True
    have step: "select_python_loop (c # cs) None None = select_python_loop cs (Some w) (Some q)"
      unfolding c by (rule select_python_loop_take) (use True in simp_all)
    from select_python_loop_some [OF True, of cs q] show ?thesis
    proof
      assume h: "select_python_loop cs (Some w) (Some q) = Some q \<and>
        (\<forall>c\<in>set cs. in_range (snd c) \<longrightarrow> snd c \<le> w)"
      then have "first_max (c # cs) q w" unfolding c using first_max_head [OF True] by blast
      with h step show ?thesis by auto
    next
      assume "\<exists>p v. select_python_loop cs (Some w) (Some q) = Some p \<and> w < v \<and> first_max cs p v"
      then obtain p v where h: "select_python_loop cs (Some w) (Some q) = Some p" "w < v"
        "first_max cs p v" by blast
      have "first_max (c # cs) p v"
        by (rule first_max_tail [OF h(3)]) (use h(2) in \<open>simp add: c\<close>)
      then show ?thesis using h(1) step by auto
    qed
  qed
qed

text \<open>
  Claim C3. \<open>select_python\<close> returns \<open>None\<close> when no candidate has a version in
  [3.10.0, 3.15.0). Otherwise the list of candidates splits around one candidate
  \<open>(p, v)\<close> whose path is returned: \<open>v\<close> lies in the range (so the result is never below
  3.10.0 nor at least 3.15.0), every in-range candidate listed before it is strictly
  smaller and every in-range candidate listed after it is at most \<open>v\<close>. So \<open>v\<close> is
  the maximum of the in-range versions and the first-listed candidate wins a tie.
\<close>

theorem select_python_max_in_range:
  "((\<forall>c\<in>set cs. \<not> in_range (snd c)) \<longrightarrow> select_python cs = None) \<and>
   ((\<exists>c\<in>set cs. in_range (snd c)) \<longrightarrow>
      (\<exists>p v. select_python cs = Some p \<and>
        (\<exists>xs ys. cs = xs @ (p, v) # ys \<and> in_range v \<and>
          (\<forall>c\<in>set xs. in_range (snd c) \<longrightarrow> snd c < v) \<and>
          (\<forall>c\<in>set ys. in_range (snd c) \<longrightarrow> snd c \<le> v))))"
  unfolding select_python_def
  using select_python_loop_none [of cs None None] select_python_loop_start [of cs]
  unfolding first_max_def by blast

theorem select_python_max_in_range_witness:
  "(\<exists>c\<in>set test_candidates. in_range (snd c)) \<and>
   select_python test_candidates = Some (py ''/usr/bin/python3.14'') \<and>
   (\<exists>p v. select_python test_candidates = Some p \<and>
      (\<exists>xs ys. test_candidates = xs @ (p, v) # ys \<and> in_range v \<and>
         (\<forall>c\<in>set xs. in_range (snd c) \<longrightarrow> snd c < v) \<and>
         (\<forall>c\<in>set ys. in_range (snd c) \<longrightarrow> snd c \<le> v)))"
proof -
  have ex: "\<exists>c\<in>set test_candidates. in_range (snd c)"
    by (simp add: test_candidates_def in_range_def)
  have val: "select_python test_candidates = Some (py ''/usr/bin/python3.14'')"
    by (simp add: test_candidates_def select_python_def)
  from select_python_max_in_range [of test_candidates] ex val show ?thesis
    by blast
qed

section \<open>Facts about the settings file\<close>

lemma dict_set_new: "k \<notin> fst ` set d \<Longrightarrow> dict_set k v d = d @ [(k, v)]"
  unfolding dict_set_def by (induction d) auto

lemma env_line_step:
  assumes k: "clean_key k" and v: "clean_value v"
  shows "load_env_loop (env_line (k, v) # rest) data = load_env_loop rest (dict_set k v data)"
proof -
  let ?line = "k @ 61 # v"
  have sp61: "\<not> is_space 61" by (simp add: is_space_def)
  have k_strip: "strip k = k" and v_strip: "strip v = v" and k61: "61 \<notin> set k"
    and kh: "\<not> starts_with_hash k"
    using k v by (simp_all add: clean_key_def clean_value_def)
  have hd_ok: "\<not> is_space (hd ?line) \<and> hd ?line \<noteq> 35"
  proof (cases k)
    case Nil
    then show ?thesis using sp61 by simp
  next
    case (Cons a k')
    then have "strip k \<noteq> []" using k_strip by simp
    from strip_ends [OF this] have "\<not> is_space (hd k)" by (simp add: k_strip)
    moreover have "hd k \<noteq> 35" using kh Cons by (simp add: starts_with_hash_def)
    ultimately show ?thesis using Cons by simp
  qed
  have last_ok: "\<not> is_space (last ?line)"
  proof (cases v)
    case Nil
    then show ?thesis using sp61 by simp
  next
    case (Cons a v')
    then have "strip v \<noteq> []" using v_strip by simp
    from strip_ends [OF this] have "\<not> is_space (last v)" by (simp add: v_strip)
    then show ?thesis using Cons by simp
  qed
  have 1: "strip ?line = ?line" by (rule strip_fixed) (use hd_ok last_ok in simp)
  have 2: "\<not> starts_with_hash ?line"
    using hd_ok by (cases k) (simp_all add: starts_with_hash_def)
  have 3: "has_eq ?line" by (simp add: has_eq_def)
  have k61': "\<forall>x\<in>set k. x \<noteq> 61" using k61 by auto
  have tw: "takeWhile (\<lambda>c. c \<noteq> 61) ?line = k"
    using k61' by simp
  have dw: "dropWhile (\<lambda>c. c \<noteq> 61) ?line = 61 # v"
    using k61' by simp
  have 4: "split_eq ?line = (k, v)" by (simp add: split_eq_def tw dw)
  show ?thesis
    by (simp add: env_line_def 1 2 3 4 k_strip v_strip Let_def del: split_eq_def)
qed

lemma load_env_lines:
  "distinct (map fst m) \<Longrightarrow> \<forall>kv\<in>set m. clean_key (fst kv) \<and> clean_value (snd kv) \<Longrightarrow>
   fst ` set m \<inter> fst ` set data = {} \<Longrightarrow>
   load_env_loop (map env_line m) data = data @ m"
proof (induction m arbitrary: data)
  case Nil
  show ?case by simp
next
  case (Cons kv m)
  obtain k v where kv: "kv = (k, v)" by (cases kv)
  from Cons.prems have ck: "clean_key k" and cv: "clean_value v" by (simp_all add: kv)
  from Cons.prems have knew: "k \<notin> fst ` set data" by (auto simp: kv)
  have step: "load_env_loop (map env_line (kv # m)) data
      = load_env_loop (map env_line m) (data @ [(k, v)])"
    using env_line_step [OF ck cv] by (simp add: kv dict_set_new [OF knew])
  have "fst ` set m \<inter> fst ` set (data @ [(k, v)]) = {}"
    using Cons.prems by (auto simp: kv)
  with Cons.IH [of "data @ [(k, v)]"] Cons.prems
  have "load_env_loop (map env_line m) (data @ [(k, v)]) = (data @ [(k, v)]) @ m" by simp
  with step show ?case by (simp add: kv)
qed

lemma storable_sort: "storable m \<Longrightarrow> storable (sort m)"
  unfolding storable_def by (simp add: distinct_map)

lemma env_line_no_linebreak:
  "clean_key (fst kv) \<Longrightarrow> clean_value (snd kv) \<Longrightarrow> \<forall>c\<in>set (env_line kv). \<not> is_linebreak c"
  by (auto simp: env_line_def clean_key_def clean_value_def is_linebreak_def)

lemma load_env_text_roundtrip:
  assumes "storable m"
  shows "load_env_loop (splitlines (env_text m)) [] = sort m"
proof (cases "m = []")
  case True
  then show ?thesis
    by (simp add: env_text_def splitlines_def is_linebreak_def)
next
  case False
  let ?ls = "map env_line (sort m)"
  have ne: "?ls \<noteq> []" using False by (metis length_0_conv length_map length_sort)
  have st: "storable (sort m)" using assms by (rule storable_sort)
  have nb: "\<forall>l\<in>set ?ls. \<forall>c\<in>set l. \<not> is_linebreak c"
    using st env_line_no_linebreak unfolding storable_def by auto
  have "splitlines (env_text m) = ?ls"
    unfolding env_text_def by (rule splitlines_join [OF ne nb])
  moreover have "load_env_loop ?ls [] = [] @ sort m"
    by (rule load_env_lines) (use st in \<open>simp_all add: storable_def\<close>)
  ultimately show ?thesis by simp
qed

lemma set_py_join: "set (py_join sep ls) \<subseteq> set sep \<union> \<Union> (set ` set ls)"
  by (induction sep ls rule: py_join.induct) auto

lemma env_text_no_cr:
  assumes "storable m"
  shows "13 \<notin> set (env_text m)"
proof -
  have st: "storable (sort m)" using assms by (rule storable_sort)
  have "\<forall>l\<in>set (map env_line (sort m)). \<forall>c\<in>set l. \<not> is_linebreak c"
    using st env_line_no_linebreak unfolding storable_def by auto
  moreover have "is_linebreak 13" by (simp add: is_linebreak_def)
  ultimately have "13 \<notin> \<Union> (set ` set (map env_line (sort m)))" by auto
  then show ?thesis
    using set_py_join [of "[10]" "map env_line (sort m)"] by (auto simp: env_text_def)
qed

lemma sorted_keys:
  assumes "distinct (map fst (m :: dict))"
  shows "sorted_wrt (<) (map fst (sort m))"
proof -
  have "sorted (sort m)" by simp
  then have "sorted_wrt (\<lambda>x y. fst x \<le> fst y) (sort m)"
    by (rule sorted_wrt_mono_rel [rotated]) (auto simp: less_eq_prod_def)
  then have "sorted (map fst (sort m))" by (simp add: sorted_map)
  moreover have "distinct (map fst (sort m))" using assms by (simp add: distinct_map)
  ultimately show ?thesis by (simp add: strict_sorted_iff)
qed

lemma map_of_sort:
  assumes "distinct (map fst (m :: dict))"
  shows "map_of (sort m) = map_of m"
proof -
  have "distinct (map fst (sort m))" using assms by (simp add: distinct_map)
  then show ?thesis using assms by (simp add: map_of_inject_set)
qed

lemma py_join_lines:
  "ls \<noteq> [] \<Longrightarrow> py_join [10] ls @ [10] = concat (map (\<lambda>l. l @ [10]) ls)"
  by (induction "[10] :: pystr" ls rule: py_join.induct) auto

lemmas prog_defs = thn_def ret_def raise_def call_def warn_def perform_def try_except_def
  try_finally_def path_exists_def read_text_def read_bytes_def is_dir_def is_symlink_def
  iterdir_def which_def getenv_def environ_copy_def subprocess_run_def run_subprocess_def
  resolve_playbook_path_def

lemma splitlines_from_clean:
  "\<forall>c\<in>set cur. \<not> is_linebreak c \<Longrightarrow>
   \<forall>l\<in>set (splitlines_from cur t). \<forall>c\<in>set l. \<not> is_linebreak c"
proof (induction cur t rule: splitlines_from.induct)
  case (1 cur)
  then show ?case by simp
next
  case (2 cur c)
  then show ?case by simp
next
  case (3 cur c d cs)
  have e: "\<forall>c\<in>set ([] :: pystr). \<not> is_linebreak c" by simp
  show ?case
  proof (cases "c = 13 \<and> d = 10")
    case True
    from "3.IH"(1) [OF True e] "3.prems" True show ?thesis by simp
  next
    case False
    show ?thesis
    proof (cases "is_linebreak c")
      case True
      from "3.IH"(2) [OF False True e] "3.prems" False True show ?thesis by auto
    next
      case nb: False
      have "\<forall>c\<in>set (cur @ [c]). \<not> is_linebreak c" using nb "3.prems" by simp
      from "3.IH"(3) [OF False nb this] show ?thesis using False nb by auto
    qed
  qed
qed

lemma splitlines_clean: "\<forall>l\<in>set (splitlines t). \<forall>c\<in>set l. \<not> is_linebreak c"
  unfolding splitlines_def by (rule splitlines_from_clean) simp

lemma strip_hd: "x \<noteq> [] \<Longrightarrow> \<not> is_space (hd x) \<Longrightarrow> hd (strip x) = hd x"
proof -
  assume ne: "x \<noteq> []" and h: "\<not> is_space (hd x)"
  have 1: "dropWhile is_space x = x" using ne h by (cases x) auto
  have "hd x \<in> set (rev x)" using ne by simp
  with h have d_ne: "dropWhile is_space (rev x) \<noteq> []" by (auto simp: dropWhile_eq_Nil_conv)
  have "rev x = takeWhile is_space (rev x) @ dropWhile is_space (rev x)" by simp
  then have "x = rev (dropWhile is_space (rev x)) @ rev (takeWhile is_space (rev x))"
    by (metis rev_append rev_rev_ident)
  then have "hd x = hd (rev (dropWhile is_space (rev x)))"
    using d_ne by (metis hd_append2 rev_is_Nil_conv)
  then show ?thesis by (simp add: strip_def 1)
qed

lemma parsed_key_clean:
  assumes nb: "\<forall>c\<in>set raw. \<not> is_linebreak c"
    and ne: "strip raw \<noteq> []" and nh: "\<not> starts_with_hash (strip raw)"
  shows "clean_key (strip (fst (split_eq (strip raw))))"
proof -
  let ?line = "strip raw"
  let ?x = "takeWhile (\<lambda>c. c \<noteq> 61) ?line"
  let ?k = "strip ?x"
  have sub: "set ?k \<subseteq> set ?x" by (rule strip_subset)
  have subx: "set ?x \<subseteq> set ?line" by (auto dest: set_takeWhileD)
  have subl: "set ?line \<subseteq> set raw" by (rule strip_subset)
  have 1: "strip ?k = ?k" by (rule strip_idem)
  have 2: "\<forall>c\<in>set ?k. \<not> is_linebreak c" using sub subx subl nb by blast
  have 3: "61 \<notin> set ?k" using sub by (auto dest: set_takeWhileD)
  have 4: "\<not> starts_with_hash ?k"
  proof (cases "?k = []")
    case True
    then show ?thesis by (simp add: starts_with_hash_def)
  next
    case False
    then have xne: "?x \<noteq> []" by auto
    then have hx: "hd ?x = hd ?line" by (cases ?line) (auto split: if_splits)
    from strip_ends [OF ne] have "\<not> is_space (hd ?line)" by simp
    with hx have "\<not> is_space (hd ?x)" by simp
    from strip_hd [OF xne this] have "hd ?k = hd ?line" using hx by simp
    moreover have "hd ?line \<noteq> 35" using nh ne by (cases ?line) (auto simp: starts_with_hash_def)
    ultimately show ?thesis using False by (cases ?k) (auto simp: starts_with_hash_def)
  qed
  show ?thesis using 1 2 3 4 by (simp add: clean_key_def clean_value_def split_eq_def)
qed

lemma parsed_value_clean:
  assumes nb: "\<forall>c\<in>set raw. \<not> is_linebreak c"
  shows "clean_value (strip (snd (split_eq (strip raw))))"
proof -
  let ?line = "strip raw"
  let ?y = "tl (dropWhile (\<lambda>c. c \<noteq> 61) ?line)"
  have "set (strip ?y) \<subseteq> set ?y" by (rule strip_subset)
  moreover have "set (tl ys) \<subseteq> set ys" for ys :: pystr by (cases ys) auto
  then have "set ?y \<subseteq> set ?line"
    using set_dropWhileD by fastforce
  moreover have "set ?line \<subseteq> set raw" by (rule strip_subset)
  ultimately have "\<forall>c\<in>set (strip ?y). \<not> is_linebreak c" using nb by blast
  then show ?thesis by (simp add: clean_value_def split_eq_def strip_idem)
qed

lemma set_dict_set: "set (dict_set k v d) \<subseteq> insert (k, v) (set d)"
  unfolding dict_set_def by (induction d) auto

lemma storable_dict_set:
  assumes "storable d" "clean_key k" "clean_value v"
  shows "storable (dict_set k v d)"
proof -
  have "distinct (map fst (dict_set k v d))"
    using assms(1) unfolding storable_def dict_set_def by (simp add: distinct_update)
  moreover have "\<forall>kv\<in>set (dict_set k v d). clean_key (fst kv) \<and> clean_value (snd kv)"
    using set_dict_set [of k v d] assms unfolding storable_def by auto
  ultimately show ?thesis by (simp add: storable_def)
qed

lemma load_env_loop_storable:
  "storable data \<Longrightarrow> \<forall>l\<in>set ls. \<forall>c\<in>set l. \<not> is_linebreak c \<Longrightarrow>
   storable (load_env_loop ls data)"
proof (induction ls arbitrary: data)
  case Nil
  then show ?case by simp
next
  case (Cons raw ls)
  from Cons.prems have nb: "\<forall>c\<in>set raw. \<not> is_linebreak c"
    and rest: "\<forall>l\<in>set ls. \<forall>c\<in>set l. \<not> is_linebreak c" by simp_all
  show ?case
  proof (cases "strip raw = [] \<or> starts_with_hash (strip raw) \<or> \<not> has_eq (strip raw)")
    case True
    then have "load_env_loop (raw # ls) data = load_env_loop ls data" by (auto simp: Let_def)
    with Cons.IH [OF Cons.prems(1) rest] show ?thesis by simp
  next
    case False
    let ?k = "strip (fst (split_eq (strip raw)))"
    let ?v = "strip (snd (split_eq (strip raw)))"
    have step: "load_env_loop (raw # ls) data = load_env_loop ls (dict_set ?k ?v data)"
      using False by (simp add: Let_def case_prod_beta del: split_eq_def)
    have "clean_key ?k" by (rule parsed_key_clean [OF nb]) (use False in simp_all)
    moreover have "clean_value ?v" by (rule parsed_value_clean [OF nb])
    ultimately have "storable (dict_set ?k ?v data)"
      using Cons.prems(1) by (simp add: storable_dict_set)
    from Cons.IH [OF this rest] step show ?thesis by simp
  qed
qed

lemma loaded_storable: "storable (load_env_loop (splitlines t) [])"
  by (rule load_env_loop_storable) (simp_all add: storable_def splitlines_clean)

lemma has_eq_strip: "has_eq (strip l) \<longleftrightarrow> has_eq l"
  unfolding has_eq_def by (rule in_strip_iff) (simp add: is_space_def)

lemma load_env_loop_skip:
  "\<not> has_eq l \<Longrightarrow> load_env_loop (l # rest) data = load_env_loop rest data"
  by (simp add: Let_def has_eq_strip)

lemma load_env_loop_filter:
  "load_env_loop ls data = load_env_loop (filter has_eq ls) data"
proof (induction ls arbitrary: data)
  case Nil
  show ?case by simp
next
  case (Cons l ls)
  show ?case
  proof (cases "has_eq l")
    case False
    then have "load_env_loop (l # ls) data = load_env_loop ls data"
      by (rule load_env_loop_skip)
    also have "\<dots> = load_env_loop (filter has_eq ls) data" by (rule Cons.IH)
    also have "filter has_eq ls = filter has_eq (l # ls)" using False by simp
    finally show ?thesis .
  next
    case True
    have "load_env_loop (filter has_eq (l # ls)) data
        = load_env_loop (l # filter has_eq ls) data" using True by simp
    also have "\<dots> = load_env_loop (l # ls) data"
      using Cons.IH [symmetric] by (simp add: Let_def case_prod_beta del: split_eq_def)
    finally show ?thesis by simp
  qed
qed

lemma load_env_loop_keys:
  "k \<in> fst ` set (load_env_loop ls data) \<Longrightarrow>
   k \<in> fst ` set data \<or>
   (\<exists>l\<in>set ls. has_eq l \<and> k = strip (fst (split_eq (strip l))))"
proof (induction ls arbitrary: data)
  case Nil
  then show ?case by simp
next
  case (Cons raw ls)
  show ?case
  proof (cases "strip raw = [] \<or> starts_with_hash (strip raw) \<or> \<not> has_eq (strip raw)")
    case True
    then have "load_env_loop (raw # ls) data = load_env_loop ls data" by (auto simp: Let_def)
    with Cons.prems have "k \<in> fst ` set (load_env_loop ls data)" by simp
    from Cons.IH [OF this] show ?thesis by auto
  next
    case False
    let ?k = "strip (fst (split_eq (strip raw)))"
    let ?v = "strip (snd (split_eq (strip raw)))"
    have step: "load_env_loop (raw # ls) data = load_env_loop ls (dict_set ?k ?v data)"
      using False by (simp add: Let_def case_prod_beta del: split_eq_def)
    with Cons.prems have "k \<in> fst ` set (load_env_loop ls (dict_set ?k ?v data))" by simp
    from Cons.IH [OF this] have "k \<in> fst ` set (dict_set ?k ?v data) \<or>
      (\<exists>l\<in>set ls. has_eq l \<and> k = strip (fst (split_eq (strip l))))" .
    moreover have "fst ` set (dict_set ?k ?v data) = {?k} \<union> fst ` set data"
      unfolding dict_set_def by (rule dom_update)
    moreover have "has_eq raw" using False by (simp add: has_eq_strip)
    ultimately show ?thesis by auto
  qed
qed

lemma write_env_file_event:
  "write_env_file os p m (w, tr) =
     ((case fst (os (WriteText p (env_text m)) w) of RRaise e \<Rightarrow> Inl e | _ \<Rightarrow> Inr ()),
      (snd (os (WriteText p (env_text m)) w),
       tr @ [Called (WriteText p (env_text m)) (fst (os (WriteText p (env_text m)) w))]))"
  by (cases "os (WriteText p (env_text m)) w"; cases "fst (os (WriteText p (env_text m)) w)")
     (simp_all add: write_env_file_def prog_defs)

lemma load_env_file_read:
  "os (Exists p) w = (RBool True, w1) \<Longrightarrow> os (ReadText p) w1 = (RStr text, w2) \<Longrightarrow>
   fst (load_env_file os p (w, tr)) = Inr (load_env_loop (splitlines text) [])"
  by (simp add: load_env_file_def prog_defs)

lemma env_text_lines:
  "env_text m = (if m = [] then [10] else concat (map (\<lambda>kv. env_line kv @ [10]) (sort m)))"
proof (cases "m = []")
  case True
  then show ?thesis by (simp add: env_text_def)
next
  case False
  then have "map env_line (sort m) \<noteq> []" by (metis length_0_conv length_map length_sort)
  from py_join_lines [OF this] False show ?thesis by (simp add: env_text_def comp_def)
qed

text \<open>
  Claim C6, as amended. For every settings map \<open>m\<close> (a dictionary: its keys are unique)
  and every host: \<open>write_env_file\<close> makes one request, to write \<open>env_text m\<close>; that text
  is one line \<open>key=value\<close>, ended by a line feed, for each item (a single line feed when
  \<open>m\<close> is empty), the items sorted, so that the keys are strictly increasing. When \<open>m\<close>
  is storable (keys and values stripped and free of line boundaries; keys without \<open>=\<close> and
  not starting with \<open>#\<close>), the write succeeds and the file is then read as it was written,
  \<open>load_env_file\<close> returns the items of \<open>m\<close> in sorted order, which is the same map as
  \<open>m\<close>. Every map that \<open>load_env_file\<close> parses from a text is storable, so that load,
  persist, load returns what the first load returned.
\<close>

theorem env_file_roundtrip:
  assumes "distinct (map fst m)"
  shows "snd (snd (write_env_file os p m (w, tr))) =
           tr @ [Called (WriteText p (env_text m)) (fst (os (WriteText p (env_text m)) w))] \<and>
         env_text m = (if m = [] then [10] else concat (map (\<lambda>kv. env_line kv @ [10]) (sort m))) \<and>
         sorted_wrt (<) (map fst (sort m)) \<and>
         map_of (sort m) = map_of m \<and>
         (storable m \<and> os (WriteText p (env_text m)) w = (RNone, w1) \<and>
          os (Exists p) w1 = (RBool True, w2) \<and> os (ReadText p) w2 = (RStr (env_text m), w3) \<longrightarrow>
            (case write_env_file os p m (w, tr) of (r, s') \<Rightarrow>
               r = Inr () \<and> fst (load_env_file os p s') = Inr (sort m))) \<and>
         storable (load_env_loop (splitlines t) [])"
proof -
  have 1: "snd (snd (write_env_file os p m (w, tr))) =
           tr @ [Called (WriteText p (env_text m)) (fst (os (WriteText p (env_text m)) w))]"
    by (simp add: write_env_file_event)
  have 5: "case write_env_file os p m (w, tr) of (r, s') \<Rightarrow>
               r = Inr () \<and> fst (load_env_file os p s') = Inr (sort m)"
    if st: "storable m" and wr: "os (WriteText p (env_text m)) w = (RNone, w1)"
      and ex: "os (Exists p) w1 = (RBool True, w2)"
      and rd: "os (ReadText p) w2 = (RStr (env_text m), w3)"
  proof -
    have "write_env_file os p m (w, tr)
        = (Inr (), (w1, tr @ [Called (WriteText p (env_text m)) RNone]))"
      by (simp add: write_env_file_event wr)
    moreover have "fst (load_env_file os p (w1, tr @ [Called (WriteText p (env_text m)) RNone]))
        = Inr (load_env_loop (splitlines (env_text m)) [])"
      by (rule load_env_file_read [OF ex rd])
    ultimately show ?thesis using load_env_text_roundtrip [OF st] by simp
  qed
  have 6: "storable m \<and> os (WriteText p (env_text m)) w = (RNone, w1) \<and>
          os (Exists p) w1 = (RBool True, w2) \<and> os (ReadText p) w2 = (RStr (env_text m), w3) \<longrightarrow>
            (case write_env_file os p m (w, tr) of (r, s') \<Rightarrow>
               r = Inr () \<and> fst (load_env_file os p s') = Inr (sort m))"
  proof (intro impI, elim conjE)
    assume "storable m" "os (WriteText p (env_text m)) w = (RNone, w1)"
      "os (Exists p) w1 = (RBool True, w2)" "os (ReadText p) w2 = (RStr (env_text m), w3)"
    then show "case write_env_file os p m (w, tr) of (r, s') \<Rightarrow>
               r = Inr () \<and> fst (load_env_file os p s') = Inr (sort m)"
      by (rule 5)
  qed
  show ?thesis
    by (rule conjI [OF 1 conjI [OF env_text_lines conjI [OF sorted_keys [OF assms]
          conjI [OF map_of_sort [OF assms] conjI [OF 6 loaded_storable]]]]])
qed

lemma sample_storable: "storable sample_settings"
  by (simp add: storable_def sample_settings_def clean_key_def clean_value_def strip_def
      py_def is_space_def is_linebreak_def starts_with_hash_def)

lemma sample_sorted: "sort sample_settings = [(py ''A'', py ''x=y''), (py ''B'', py ''2'')]"
  by (simp add: sample_settings_def py_def)

text \<open>
  C6 on the sample settings and a mock host whose recording holds a successful write and
  a file that is read as it was written.
\<close>

theorem env_file_roundtrip_witness:
  "distinct (map fst sample_settings) \<and> storable sample_settings \<and>
   mock_os nothing_installed (WriteText env_path (env_text sample_settings))
       [RNone, RBool True, RStr (env_text sample_settings)]
     = (RNone, [RBool True, RStr (env_text sample_settings)]) \<and>
   mock_os nothing_installed (Exists env_path) [RBool True, RStr (env_text sample_settings)]
     = (RBool True, [RStr (env_text sample_settings)]) \<and>
   mock_os nothing_installed (ReadText env_path) [RStr (env_text sample_settings)]
     = (RStr (env_text sample_settings), []) \<and>
   fst (load_env_file (mock_os nothing_installed) env_path
     (snd (write_env_file (mock_os nothing_installed) env_path sample_settings
        ([RNone, RBool True, RStr (env_text sample_settings)], []))))
     = Inr [(py ''A'', py ''x=y''), (py ''B'', py ''2'')]"
proof -
  have d: "distinct (map fst sample_settings)" using sample_storable by (simp add: storable_def)
  have a: "mock_os nothing_installed (WriteText env_path (env_text sample_settings))
       [RNone, RBool True, RStr (env_text sample_settings)]
     = (RNone, [RBool True, RStr (env_text sample_settings)])" by simp
  have b: "mock_os nothing_installed (Exists env_path)
       [RBool True, RStr (env_text sample_settings)]
     = (RBool True, [RStr (env_text sample_settings)])" by simp
  have c: "mock_os nothing_installed (ReadText env_path) [RStr (env_text sample_settings)]
     = (RStr (env_text sample_settings), [])" by simp
  note r = env_file_roundtrip [OF d, where os = "mock_os nothing_installed" and p = env_path
      and w = "[RNone, RBool True, RStr (env_text sample_settings)]" and tr = "[]"
      and ?w1.0 = "[RBool True, RStr (env_text sample_settings)]"
      and ?w2.0 = "[RStr (env_text sample_settings)]" and ?w3.0 = "[]"]
  note i = r [THEN conjunct2, THEN conjunct2, THEN conjunct2, THEN conjunct2, THEN conjunct1]
  have "case write_env_file (mock_os nothing_installed) env_path sample_settings
          ([RNone, RBool True, RStr (env_text sample_settings)], []) of
        (r, s') \<Rightarrow> r = Inr () \<and>
          fst (load_env_file (mock_os nothing_installed) env_path s') = Inr (sort sample_settings)"
    by (rule mp [OF i conjI [OF sample_storable conjI [OF a conjI [OF b c]]]])
  then have "fst (load_env_file (mock_os nothing_installed) env_path
     (snd (write_env_file (mock_os nothing_installed) env_path sample_settings
        ([RNone, RBool True, RStr (env_text sample_settings)], []))))
     = Inr [(py ''A'', py ''x=y''), (py ''B'', py ''2'')]"
    by (simp add: case_prod_beta sample_sorted)
  with d sample_storable a b c show ?thesis by blast
qed

text \<open>
  Claim C6 as stated fails: the map that binds \<open>A\<close> to the value \<open>" x"\<close> is written as the
  line \<open>A= x\<close>, and from a file that is read as it was written it is loaded as the map
  that binds \<open>A\<close> to \<open>"x"\<close>.
\<close>

theorem env_file_roundtrip_counterexample:
  "env_text padded_settings = py ''A= x'' @ [10] \<and>
   fst (load_env_file (mock_os nothing_installed) env_path
     (snd (write_env_file (mock_os nothing_installed) env_path padded_settings
        ([RNone, RBool True, RStr (env_text padded_settings)], []))))
     = Inr [(py ''A'', py ''x'')] \<and>
   dict_get [(py ''A'', py ''x'')] (py ''A'') \<noteq> dict_get padded_settings (py ''A'')"
proof -
  have etext: "env_text padded_settings = py ''A= x'' @ [10]"
    by (simp add: env_text_def padded_settings_def env_line_def py_def)
  have parsed: "load_env_loop (splitlines (py ''A= x'' @ [10])) [] = [(py ''A'', py ''x'')]"
    by (simp add: splitlines_def py_def is_linebreak_def strip_def is_space_def
        starts_with_hash_def has_eq_def split_eq_def dict_set_def)
  have "fst (load_env_file (mock_os nothing_installed) env_path
     (snd (write_env_file (mock_os nothing_installed) env_path padded_settings
        ([RNone, RBool True, RStr (env_text padded_settings)], []))))
     = Inr (load_env_loop (splitlines (env_text padded_settings)) [])"
    by (simp add: write_env_file_event load_env_file_def prog_defs)
  then have 2: "fst (load_env_file (mock_os nothing_installed) env_path
     (snd (write_env_file (mock_os nothing_installed) env_path padded_settings
        ([RNone, RBool True, RStr (env_text padded_settings)], []))))
     = Inr [(py ''A'', py ''x'')]"
    by (simp only: etext parsed)
  have 3: "dict_get [(py ''A'', py ''x'')] (py ''A'') \<noteq> dict_get padded_settings (py ''A'')"
    by (simp add: dict_get_def padded_settings_def py_eq_iff)
  from etext 2 3 show ?thesis by blast
qed

text \<open>
  Claim C10. A line without \<open>=\<close> is skipped by the loop of \<open>load_env_file\<close>: the loop
  goes on with the data unchanged and raises nothing. For a file that exists and is read
  as \<open>text\<close>, \<open>load_env_file\<close> returns what it would return were the lines without
  \<open>=\<close> removed, and every key of the returned map is the stripped part before the first
  \<open>=\<close> of a line that contains \<open>=\<close>.
\<close>

theorem load_env_file_skips_lines_without_eq:
  assumes "os (Exists p) w = (RBool True, w1)" and "os (ReadText p) w1 = (RStr text, w2)"
  shows "load_env_loop (raw # rest) data =
           (if has_eq raw then load_env_loop (raw # rest) data else load_env_loop rest data) \<and>
         fst (load_env_file os p (w, tr)) = Inr (load_env_loop (filter has_eq (splitlines text)) []) \<and>
         (\<forall>k\<in>fst ` set (load_env_loop (filter has_eq (splitlines text)) []).
            \<exists>l\<in>set (splitlines text). has_eq l \<and> k = strip (fst (split_eq (strip l))))"
proof -
  have 1: "load_env_loop (raw # rest) data =
           (if has_eq raw then load_env_loop (raw # rest) data else load_env_loop rest data)"
    using load_env_loop_skip [of raw rest data] by simp
  have "fst (load_env_file os p (w, tr)) = Inr (load_env_loop (splitlines text) [])"
    using assms by (simp add: load_env_file_def prog_defs)
  then have 2: "fst (load_env_file os p (w, tr))
      = Inr (load_env_loop (filter has_eq (splitlines text)) [])"
    using load_env_loop_filter [of "splitlines text" "[]"] by simp
  have 3: "\<forall>k\<in>fst ` set (load_env_loop (filter has_eq (splitlines text)) []).
            \<exists>l\<in>set (splitlines text). has_eq l \<and> k = strip (fst (split_eq (strip l)))"
  proof
    fix k assume "k \<in> fst ` set (load_env_loop (filter has_eq (splitlines text)) [])"
    then have "k \<in> fst ` set (load_env_loop (splitlines text) [])"
      using load_env_loop_filter [of "splitlines text" "[]"] by simp
    from load_env_loop_keys [OF this]
    show "\<exists>l\<in>set (splitlines text). has_eq l \<and> k = strip (fst (split_eq (strip l)))" by simp
  qed
  from 1 2 3 show ?thesis by blast
qed

text \<open>
  C10 on a file with a comment, one assignment and one line without \<open>=\<close>, on a mock
  host whose recording holds the file.
\<close>

theorem load_env_file_skips_lines_without_eq_witness:
  "mock_os nothing_installed (Exists env_path) [RBool True, RStr sample_env_text]
     = (RBool True, [RStr sample_env_text]) \<and>
   mock_os nothing_installed (ReadText env_path) [RStr sample_env_text]
     = (RStr sample_env_text, []) \<and>
   fst (load_env_file (mock_os nothing_installed) env_path
          ([RBool True, RStr sample_env_text], []))
     = Inr [(py ''A'', py ''1'')]"
proof -
  have a: "mock_os nothing_installed (Exists env_path) [RBool True, RStr sample_env_text]
     = (RBool True, [RStr sample_env_text])" by simp
  have b: "mock_os nothing_installed (ReadText env_path) [RStr sample_env_text]
     = (RStr sample_env_text, [])" by simp
  have c: "load_env_loop (filter has_eq (splitlines sample_env_text)) [] = [(py ''A'', py ''1'')]"
    by (simp add: sample_env_text_def splitlines_def py_def is_linebreak_def strip_def
        is_space_def starts_with_hash_def has_eq_def split_eq_def dict_set_def)
  from load_env_file_skips_lines_without_eq [where os = "mock_os nothing_installed"
      and p = env_path and w = "[RBool True, RStr sample_env_text]" and tr = "[]", OF a b] a b c
  show ?thesis by simp
qed

section \<open>Facts about runtime detection\<close>

lemma which_answer:
  assumes "\<forall>n w. \<exists>w'. os (Which n) w = (RStrOpt (inst n), w')"
  shows "\<exists>w'. which os c (w, tr) = (Inr (inst c), (w', tr @ [Called (Which c) (RStrOpt (inst c))]))"
proof -
  from assms obtain w' where "os (Which c) w = (RStrOpt (inst c), w')" by blast
  then show ?thesis by (simp add: prog_defs)
qed

lemma find_runtime_table:
  assumes "\<forall>n w. \<exists>w'. os (Which n) w = (RStrOpt (inst n), w')"
  shows "\<exists>w'. find_runtime os cs (w, tr) =
     (Inr (find (\<lambda>c. truthy (inst c)) cs),
      (w', tr @ map (\<lambda>c. Called (Which c) (RStrOpt (inst c))) (probes inst cs)))"
proof (induction cs arbitrary: w tr)
  case Nil
  show ?case by (simp add: ret_def)
next
  case (Cons c cs)
  from which_answer [OF assms, of c w tr] obtain w1 where
    1: "which os c (w, tr) = (Inr (inst c), (w1, tr @ [Called (Which c) (RStrOpt (inst c))]))"
    by blast
  show ?case
  proof (cases "truthy (inst c)")
    case True
    then show ?thesis using 1 by (simp add: thn_def ret_def)
  next
    case False
    from Cons.IH [of w1 "tr @ [Called (Which c) (RStrOpt (inst c))]"] obtain w2 where
      "find_runtime os cs (w1, tr @ [Called (Which c) (RStrOpt (inst c))]) =
         (Inr (find (\<lambda>c. truthy (inst c)) cs),
          (w2, (tr @ [Called (Which c) (RStrOpt (inst c))])
                 @ map (\<lambda>c. Called (Which c) (RStrOpt (inst c))) (probes inst cs)))"
      by blast
    then show ?thesis using 1 False by (simp add: thn_def)
  qed
qed

lemma find_truthy:
  "find (\<lambda>c. truthy (inst c)) cs = Some r \<Longrightarrow> [] \<notin> set cs \<Longrightarrow> truthy (Some r)"
  by (induction cs) (auto simp: truthy_def split: if_splits)

lemma search_order_nonempty: "[] \<notin> set (search_order preferred)"
  by (auto simp: search_order_def Let_def py_def split: option.splits)

text \<open>
  Claim C9. On a host where \<open>shutil.which\<close> answers by the table \<open>inst\<close>: the search
  order is the preferred engine, when one is given (an empty name counts as none), then
  \<open>podman\<close>, then \<open>docker\<close>, without the preferred one a second time; the result is the
  first engine of that order that is found, with \<open>:ro,z\<close> for \<open>podman\<close> and \<open>:ro\<close> for any
  other engine, and \<open>(None, None)\<close> when none is found; the requests to the host are the
  probes of the engines in that order up to the first one found. With no preference and
  \<open>podman\<close> installed the result is \<open>("podman", ":ro,z")\<close>.
\<close>

theorem detect_container_runtime_order:
  assumes "\<forall>n w. \<exists>w'. os (Which n) w = (RStrOpt (inst n), w')"
  shows "search_order preferred =
           (case preferred of
              None \<Rightarrow> [py ''podman'', py ''docker'']
            | Some p \<Rightarrow> if p = [] then [py ''podman'', py ''docker'']
                        else p # filter (\<lambda>r. r \<noteq> p) [py ''podman'', py ''docker'']) \<and>
         fst (detect_container_runtime os preferred (w, tr)) =
           Inr (case find (\<lambda>c. truthy (inst c)) (search_order preferred) of
                  None \<Rightarrow> (None, None)
                | Some r \<Rightarrow> (Some r, Some (if r = py ''podman'' then py '':ro,z'' else py '':ro''))) \<and>
         snd (snd (detect_container_runtime os preferred (w, tr))) =
           tr @ map (\<lambda>c. Called (Which c) (RStrOpt (inst c))) (probes inst (search_order preferred))
              @ (if find (\<lambda>c. truthy (inst c)) (search_order preferred) = None
                 then [Warned (py ''No container runtime found'')] else []) \<and>
         (preferred = None \<and> truthy (inst (py ''podman'')) \<longrightarrow>
            fst (detect_container_runtime os preferred (w, tr))
              = Inr (Some (py ''podman''), Some (py '':ro,z'')))"
proof -
  let ?f = "find (\<lambda>c. truthy (inst c)) (search_order preferred)"
  have 1: "search_order preferred =
           (case preferred of
              None \<Rightarrow> [py ''podman'', py ''docker'']
            | Some p \<Rightarrow> if p = [] then [py ''podman'', py ''docker'']
                        else p # filter (\<lambda>r. r \<noteq> p) [py ''podman'', py ''docker''])"
    by (simp add: search_order_def Let_def split: option.splits)
  from find_runtime_table [OF assms, of "search_order preferred" w tr] obtain w1 where
    fr: "find_runtime os (search_order preferred) (w, tr) =
     (Inr ?f, (w1, tr @ map (\<lambda>c. Called (Which c) (RStrOpt (inst c)))
                          (probes inst (search_order preferred))))"
    by blast
  have res: "detect_container_runtime os preferred (w, tr) =
      (Inr (case ?f of None \<Rightarrow> (None, None)
            | Some r \<Rightarrow> (Some r, Some (if r = py ''podman'' then py '':ro,z'' else py '':ro''))),
       (w1, tr @ map (\<lambda>c. Called (Which c) (RStrOpt (inst c))) (probes inst (search_order preferred))
              @ (if ?f = None then [Warned (py ''No container runtime found'')] else [])))"
  proof (cases ?f)
    case None
    then show ?thesis
      using fr by (simp add: detect_container_runtime_def thn_def ret_def warn_def truthy_def)
  next
    case (Some r)
    from find_truthy [OF Some search_order_nonempty] have "truthy (Some r)" .
    then show ?thesis
      using fr Some by (simp add: detect_container_runtime_def thn_def ret_def)
  qed
  have 4: "preferred = None \<and> truthy (inst (py ''podman'')) \<longrightarrow>
            fst (detect_container_runtime os preferred (w, tr))
              = Inr (Some (py ''podman''), Some (py '':ro,z''))"
  proof (intro impI, elim conjE)
    assume n: "preferred = None" and i: "truthy (inst (py ''podman''))"
    have "search_order preferred = [py ''podman'', py ''docker'']"
      by (simp add: n search_order_def)
    then have "?f = Some (py ''podman'')" using i by simp
    then show "fst (detect_container_runtime os preferred (w, tr))
              = Inr (Some (py ''podman''), Some (py '':ro,z''))"
      by (simp add: res)
  qed
  show ?thesis using 1 res 4 by simp
qed

text \<open>C9 with no preference on a mock host that has both engines.\<close>

theorem detect_container_runtime_order_witness:
  "(\<forall>n w. \<exists>w'. mock_os both_installed (Which n) w = (RStrOpt (both_installed n), w')) \<and>
   fst (detect_container_runtime (mock_os both_installed) None ([], []))
     = Inr (Some (py ''podman''), Some (py '':ro,z'')) \<and>
   snd (snd (detect_container_runtime (mock_os both_installed) None ([], [])))
     = [Called (Which (py ''podman'')) (RStrOpt (Some (py ''/usr/bin/podman'')))]"
proof -
  have h: "\<forall>n w. \<exists>w'. mock_os both_installed (Which n) w = (RStrOpt (both_installed n), w')"
    by simp
  have p: "both_installed (py ''podman'') = Some (py ''/usr/bin/podman'')"
    by (simp add: both_installed_def)
  have t: "truthy (both_installed (py ''podman''))"
    unfolding p truthy_def by (simp add: py_def)
  have so: "search_order None = [py ''podman'', py ''docker'']" by (simp add: search_order_def)
  from detect_container_runtime_order [OF h, of None "[]" "[]"] h p t so
  show ?thesis by simp
qed

section \<open>Facts about traces\<close>

lemma holdsI:
  "(\<And>w tr r w' tr'. m (w, tr) = (r, (w', tr')) \<Longrightarrow> \<exists>evs. tr' = tr @ evs \<and> G r evs) \<Longrightarrow> holds G m"
  unfolding holds_def by (metis prod.collapse)

lemma holdsD:
  "holds G m \<Longrightarrow> m (w, tr) = (r, (w', tr')) \<Longrightarrow> \<exists>evs. tr' = tr @ evs \<and> G r evs"
  unfolding holds_def by fastforce

lemma holds_weaken: "holds G m \<Longrightarrow> (\<And>r evs. G r evs \<Longrightarrow> H r evs) \<Longrightarrow> holds H m"
  unfolding holds_def by blast

lemma emits_ret: "emits P (ret x)"
  by (simp add: emits_def holds_def ret_def)

lemma emits_raise: "emits P (raise e)"
  by (simp add: emits_def holds_def raise_def)

lemma emits_warn: "P (Warned msg) \<Longrightarrow> emits P (warn msg)"
  by (auto simp: emits_def holds_def warn_def)

lemma emits_call: "(\<And>a. P (Called r a)) \<Longrightarrow> emits P (call os r)"
  by (auto simp: emits_def holds_def call_def split: prod.splits)

lemma holds_thn:
  assumes m: "holds G1 m" and f: "\<And>x. holds (G2 x) (f x)"
    and ex: "\<And>e evs. G1 (Inl e) evs \<Longrightarrow> G (Inl e) evs"
    and sq: "\<And>x e1 r e2. G1 (Inr x) e1 \<Longrightarrow> G2 x r e2 \<Longrightarrow> G r (e1 @ e2)"
  shows "holds G (thn m f)"
proof (rule holdsI)
  fix w tr r w' tr'
  assume run: "thn m f (w, tr) = (r, (w', tr'))"
  obtain r1 w1 tr1 where m1: "m (w, tr) = (r1, (w1, tr1))" by (metis prod.collapse)
  from holdsD [OF m m1] obtain e1 where e1: "tr1 = tr @ e1" "G1 r1 e1" by blast
  show "\<exists>evs. tr' = tr @ evs \<and> G r evs"
  proof (cases r1)
    case (Inl e)
    with run m1 have "r = Inl e" "tr' = tr1" by (simp_all add: thn_def)
    with e1 Inl ex show ?thesis by auto
  next
    case (Inr x)
    with run m1 have "f x (w1, tr1) = (r, (w', tr'))" by (simp add: thn_def)
    from holdsD [OF f this] obtain e2 where e2: "tr' = tr1 @ e2" "G2 x r e2" by blast
    from sq [of x e1 r e2] e1 e2 Inr have "G r (e1 @ e2)" by simp
    with e1 e2 show ?thesis by auto
  qed
qed

lemma emits_thn:
  assumes "emits P m" and "\<And>x. emits P (f x)"
  shows "emits P (thn m f)"
  unfolding emits_def
proof (rule holds_thn [where ?G1.0 = "\<lambda>r evs. \<forall>e\<in>set evs. P e"
      and ?G2.0 = "\<lambda>x r evs. \<forall>e\<in>set evs. P e"])
  show "holds (\<lambda>r evs. \<forall>e\<in>set evs. P e) m" using assms(1) by (simp add: emits_def)
  show "holds (\<lambda>r evs. \<forall>e\<in>set evs. P e) (f x)" for x using assms(2) by (simp add: emits_def)
qed auto

lemma holds_prefix:
  assumes m: "emits P m" and f: "\<And>x. holds G (f x)"
    and ex: "\<And>e evs. \<forall>x\<in>set evs. P x \<Longrightarrow> G (Inl e) evs"
    and pre: "\<And>r e1 e2. \<forall>x\<in>set e1. P x \<Longrightarrow> G r e2 \<Longrightarrow> G r (e1 @ e2)"
  shows "holds G (thn m f)"
proof (rule holds_thn [where ?G1.0 = "\<lambda>r evs. \<forall>e\<in>set evs. P e" and ?G2.0 = "\<lambda>x. G"])
  show "holds (\<lambda>r evs. \<forall>e\<in>set evs. P e) m" using m by (simp add: emits_def)
  show "holds G (f x)" for x by (rule f)
qed (use ex pre in auto)

lemma emits_try_except: "emits P m \<Longrightarrow> emits P h \<Longrightarrow> emits P (try_except m c h)"
proof -
  assume m: "emits P m" and h: "emits P h"
  show ?thesis unfolding emits_def
  proof (rule holdsI)
    fix w tr r w' tr'
    assume run: "try_except m c h (w, tr) = (r, (w', tr'))"
    obtain r1 w1 tr1 where m1: "m (w, tr) = (r1, (w1, tr1))" by (metis prod.collapse)
    from holdsD [OF m [unfolded emits_def] m1] obtain e1 where
      e1: "tr1 = tr @ e1" "\<forall>e\<in>set e1. P e" by blast
    show "\<exists>evs. tr' = tr @ evs \<and> (\<forall>e\<in>set evs. P e)"
    proof (cases "\<exists>e. r1 = Inl e \<and> c e")
      case True
      then have "h (w1, tr1) = (r, (w', tr'))" using run m1 by (auto simp: try_except_def)
      from holdsD [OF h [unfolded emits_def] this] obtain e2 where
        "tr' = tr1 @ e2" "\<forall>e\<in>set e2. P e" by blast
      with e1 show ?thesis by auto
    next
      case False
      then have "tr' = tr1" using run m1 by (cases r1) (auto simp: try_except_def)
      with e1 show ?thesis by auto
    qed
  qed
qed

lemma emits_mono:
  assumes "emits P m" and "\<And>e. P e \<Longrightarrow> Q e"
  shows "emits Q m"
  unfolding emits_def
  by (rule holds_weaken [OF assms(1) [unfolded emits_def]]) (use assms(2) in blast)

lemma emits_typed:
  "(\<And>a. P (Called r a)) \<Longrightarrow> (\<And>a. emits P (k a)) \<Longrightarrow> emits P (thn (call os r) k)"
  by (rule emits_thn [OF emits_call])

lemma emits_path_exists: "(\<And>a. P (Called (Exists p) a)) \<Longrightarrow> emits P (path_exists os p)"
  unfolding path_exists_def
  by (rule emits_typed) (auto split: rsp.splits intro: emits_ret emits_raise)

lemma emits_is_dir: "(\<And>a. P (Called (IsDir p) a)) \<Longrightarrow> emits P (is_dir os p)"
  unfolding is_dir_def
  by (rule emits_typed) (auto split: rsp.splits intro: emits_ret emits_raise)

lemma emits_is_symlink: "(\<And>a. P (Called (IsSymlink p) a)) \<Longrightarrow> emits P (is_symlink os p)"
  unfolding is_symlink_def
  by (rule emits_typed) (auto split: rsp.splits intro: emits_ret emits_raise)

lemma emits_read_text: "(\<And>a. P (Called (ReadText p) a)) \<Longrightarrow> emits P (read_text os p)"
  unfolding read_text_def
  by (rule emits_typed) (auto split: rsp.splits intro: emits_ret emits_raise)

lemma emits_read_bytes: "(\<And>a. P (Called (ReadBytes p) a)) \<Longrightarrow> emits P (read_bytes os p)"
  unfolding read_bytes_def
  by (rule emits_typed) (auto split: rsp.splits intro: emits_ret emits_raise)

lemma emits_iterdir: "(\<And>a. P (Called (Iterdir p) a)) \<Longrightarrow> emits P (iterdir os p)"
  unfolding iterdir_def
  by (rule emits_typed) (auto split: rsp.splits intro: emits_ret emits_raise)

lemma emits_which: "(\<And>a. P (Called (Which n) a)) \<Longrightarrow> emits P (which os n)"
  unfolding which_def
  by (rule emits_typed) (auto split: rsp.splits intro: emits_ret emits_raise)

lemma emits_getenv: "(\<And>a. P (Called (GetEnv n) a)) \<Longrightarrow> emits P (getenv os n)"
  unfolding getenv_def
  by (rule emits_typed) (auto split: rsp.splits intro: emits_ret emits_raise)

lemma emits_environ_copy: "(\<And>a. P (Called Environ a)) \<Longrightarrow> emits P (environ_copy os)"
  unfolding environ_copy_def
  by (rule emits_typed) (auto split: rsp.splits intro: emits_ret emits_raise)

lemma emits_parse_int: "(\<And>a. P (Called (ParseInt s) a)) \<Longrightarrow> emits P (parse_int os s)"
  unfolding parse_int_def
  by (rule emits_typed) (auto split: rsp.splits intro: emits_ret emits_raise)

lemma emits_perform: "(\<And>a. P (Called r a)) \<Longrightarrow> emits P (perform os r)"
  unfolding perform_def by (rule emits_typed) (auto intro: emits_ret)

lemma emits_resolve_playbook_path:
  "(\<And>r a. P (Called (ResolvePath r) a)) \<Longrightarrow> (\<And>a. P (Called ScriptDir a)) \<Longrightarrow>
   emits P (resolve_playbook_path os p)"
  unfolding resolve_playbook_path_def
  by (rule emits_typed) (auto split: rsp.splits intro: emits_ret emits_raise)

lemma emits_subprocess_run:
  "(\<And>a. P (Called (Subprocess xs c env) a)) \<Longrightarrow> emits P (subprocess_run os xs chk c env)"
  unfolding subprocess_run_def
  by (rule emits_typed) (auto split: rsp.splits intro: emits_ret emits_raise)

lemma emits_run_subprocess:
  "(\<And>a. P (Called (Subprocess xs c env) a)) \<Longrightarrow> emits P (run_subprocess os xs c env)"
  unfolding run_subprocess_def by (rule emits_subprocess_run)

lemma emits_if:
  "(b \<Longrightarrow> emits P m1) \<Longrightarrow> (\<not> b \<Longrightarrow> emits P m2) \<Longrightarrow> emits P (if b then m1 else m2)"
  by simp

lemma emits_case_option:
  "(x = None \<Longrightarrow> emits P m1) \<Longrightarrow> (\<And>y. x = Some y \<Longrightarrow> emits P (m2 y)) \<Longrightarrow>
   emits P (case x of None \<Rightarrow> m1 | Some y \<Rightarrow> m2 y)"
  by (cases x) simp_all

lemma emits_case_prod:
  "(\<And>a b. x = (a, b) \<Longrightarrow> emits P (m a b)) \<Longrightarrow> emits P (case x of (a, b) \<Rightarrow> m a b)"
  by (cases x) simp

lemmas emits_intros = emits_ret emits_raise emits_thn emits_try_except emits_if
  emits_case_option emits_case_prod emits_path_exists emits_is_dir emits_is_symlink
  emits_read_text emits_read_bytes emits_iterdir emits_which emits_getenv emits_environ_copy
  emits_perform emits_resolve_playbook_path emits_subprocess_run emits_run_subprocess
  emits_warn emits_parse_int

lemmas event_defs = is_subprocess_event_def is_start_event_def is_stop_event_def
  is_start_args_def is_stop_args_def started_ok_def

lemma emits_load_env_file: "emits (\<lambda>e. \<not> is_subprocess_event e) (load_env_file os p)"
  unfolding load_env_file_def
  by (intro emits_intros) (simp_all add: event_defs)

lemma emits_put_all: "emits (\<lambda>e. \<not> is_subprocess_event e) (put_all os d)"
proof (induction d)
  case Nil
  show ?case by (simp add: emits_ret)
next
  case (Cons kv d)
  obtain k v where kv: "kv = (k, v)" by (cases kv)
  show ?case unfolding kv put_all.simps
    by (intro emits_intros Cons.IH) (simp_all add: event_defs)
qed

lemma emits_set_env_vars: "emits (\<lambda>e. \<not> is_subprocess_event e) (set_env_vars os p)"
  unfolding set_env_vars_def
  by (intro emits_thn emits_load_env_file emits_put_all)

lemma emits_resolve_setting:
  "emits (\<lambda>e. \<not> is_subprocess_event e) (resolve_setting name cli settings dflt)"
  unfolding resolve_setting_def Let_def
  by (intro emits_intros) (simp_all add: event_defs)

lemma emits_find_runtime: "emits (\<lambda>e. \<not> is_subprocess_event e) (find_runtime os cs)"
proof (induction cs)
  case Nil
  show ?case by (simp add: emits_ret)
next
  case (Cons c cs)
  show ?case unfolding find_runtime.simps
    by (intro emits_intros Cons.IH) (simp_all add: event_defs)
qed

lemma emits_detect_container_runtime:
  "emits (\<lambda>e. \<not> is_subprocess_event e) (detect_container_runtime os preferred)"
  unfolding detect_container_runtime_def
  by (intro emits_intros emits_find_runtime) (simp_all add: event_defs)

lemma emits_detect_ansible: "emits (\<lambda>e. \<not> is_subprocess_event e) (detect_ansible os)"
  unfolding detect_ansible_def
  by (intro emits_intros) (simp_all add: event_defs)

lemma emits_resolve_playbook_path_ns:
  "emits (\<lambda>e. \<not> is_subprocess_event e) (resolve_playbook_path os p)"
  by (intro emits_intros) (simp_all add: event_defs)









section \<open>Facts about the run workflow\<close>

lemma run_subprocess_event:
  "\<exists>r a w'. run_subprocess os xs c env (w, tr) = (r, (w', tr @ [Called (Subprocess xs c env) a])) \<and>
     (case r of Inr out \<Rightarrow> a = RExit 0 out | Inl e \<Rightarrow> (\<forall>out. a \<noteq> RExit 0 out))"
proof -
  obtain a w' where o: "os (Subprocess xs c env) w = (a, w')" by (cases "os (Subprocess xs c env) w")
  show ?thesis
    by (cases a) (simp_all add: o run_subprocess_def subprocess_run_def thn_def call_def
        ret_def raise_def)
qed

















lemma emitsD:
  "emits P m \<Longrightarrow> m (w, tr) = (r, (w', tr')) \<Longrightarrow> \<exists>evs. tr' = tr @ evs \<and> (\<forall>e\<in>set evs. P e)"
  unfolding emits_def by (rule holdsD)



lemma holds_if:
  "(b \<Longrightarrow> holds G m1) \<Longrightarrow> (\<not> b \<Longrightarrow> holds G m2) \<Longrightarrow> holds G (if b then m1 else m2)"
  by simp

lemma holds_case_option:
  "(x = None \<Longrightarrow> holds G m1) \<Longrightarrow> (\<And>y. x = Some y \<Longrightarrow> holds G (m2 y)) \<Longrightarrow>
   holds G (case x of None \<Rightarrow> m1 | Some y \<Rightarrow> m2 y)"
  by (cases x) simp_all

lemma holds_case_prod:
  "(\<And>a b. x = (a, b) \<Longrightarrow> holds G (m a b)) \<Longrightarrow> holds G (case x of (a, b) \<Rightarrow> m a b)"
  by (cases x) simp

lemma emits_parse_block:
  "emits (\<lambda>e. \<not> is_subprocess_event e)
     (try_except (thn (parse_int os s) (\<lambda>i. ret (Some i))) c (ret None))"
  by (intro emits_intros) (simp_all add: event_defs)


section \<open>Evaluation on concrete hosts\<close>

text \<open>
  The definitions of the programs, each applied to a state, so that the simplifier unfolds
  a program only when it runs it.
\<close>

lemma if_app: "(if b then f else g) s = (if b then f s else g s)"
  by simp

lemmas step_defs =
  perform_def [THEN fun_cong] path_exists_def [THEN fun_cong] is_dir_def [THEN fun_cong]
  is_symlink_def [THEN fun_cong] read_text_def [THEN fun_cong] read_bytes_def [THEN fun_cong]
  iterdir_def [THEN fun_cong] which_def [THEN fun_cong] getenv_def [THEN fun_cong]
  environ_copy_def [THEN fun_cong] subprocess_run_def [THEN fun_cong]
  run_subprocess_def [THEN fun_cong] resolve_playbook_path_def [THEN fun_cong]
  load_env_file_def [THEN fun_cong] write_env_file_def [THEN fun_cong]
  set_env_vars_def [THEN fun_cong] put_all.simps [THEN fun_cong]
  detect_ansible_def [THEN fun_cong] find_runtime.simps [THEN fun_cong]
  detect_container_runtime_def [THEN fun_cong] setup_ssh_keys_def [THEN fun_cong]
  setup_vault_def [THEN fun_cong] role_entries_of.simps [THEN fun_cong]
  setup_roles_def [THEN fun_cong] has_collection_def [THEN fun_cong]
  setup_collections_def [THEN fun_cong] setup_container_def [THEN fun_cong]
  run_playbook_def [THEN fun_cong] resolve_setting_def [THEN fun_cong]
  parse_int_def [THEN fun_cong] run_after_container_def [THEN fun_cong] run_try_body_def run_finally_def [THEN fun_cong]
  run_with_def [THEN fun_cong] run_resolve_def [THEN fun_cong] run_def [THEN fun_cong]
  select_python_logged_def [THEN fun_cong] find_python_candidates_def [THEN fun_cong]
  ensure_venv_def [THEN fun_cong] venv_python_of_def [THEN fun_cong]
  install_requirements_def [THEN fun_cong] activate_write_back_def [THEN fun_cong]
  activate_def [THEN fun_cong]
  thn_def ret_def raise_def call_def warn_def try_except_def try_finally_def if_app

lemmas value_defs =
  Let_def py_def pjoin_def parent_def or_default_def truthy_def dict_get_def dict_set_def
  dict_update_def search_order_def keygen_args_def build_args_def stop_args_def start_args_def
  playbook_args_def dispatched_limit_def override_warning_def str_of_int_def strip_def
  is_space_def is_subprocess_error_def is_value_error_def
  SUCCESS_def NO_RUNTIME_def MISSING_DEPENDENCY_def
  DEFAULT_CONTAINER_RUNTIME_def DEFAULT_CONTAINER_NAME_def DEFAULT_CONTAINER_IMAGE_def
  DEFAULT_HOST_PORT_def DEFAULT_SSH_PORT_def DEFAULT_SSH_DIR_def DEFAULT_KEY_BASENAME_def
  DEFAULT_VAULT_PASSWORD_FILE_def PLAYBOOK_FILE_def INVENTORY_FILE_def
  tools_installed_def plain_args_def skip_args_def fresh_checkout_def failing_session_def
  skip_session_def

section \<open>Two recorded sessions\<close>


lemma skip_run_value:
  "case run (mock_os tools_installed) skip_args (skip_session, []) of (r, w, tr) \<Rightarrow>
     r = Inr SUCCESS \<and> w = [] \<and> filter is_start_event tr = [] \<and>
       filter is_stop_event tr = [] \<and>
       commands tr =
         [keygen_args (py ''/srv/sandbox/ssh_keys/ansible_target''),
          [py ''ansible-galaxy'', py ''collection'', py ''list''],
          [py ''ansible-galaxy'', py ''collection'', py ''install'', py ''ansible.posix''],
          [py ''ansible-galaxy'', py ''collection'', py ''list''],
          [py ''ansible-galaxy'', py ''collection'', py ''install'', py ''community.general''],
          [py ''ansible-playbook'', py ''--inventory'',
           py ''/srv/sandbox/inventory/main.yml'', py ''/srv/sandbox/playbooks/sample_playbook.yml'',
           py ''-l'', py ''localhost'']]"
  by (simp add: step_defs value_defs event_defs keygen_args_def
      del: put_all.simps find_runtime.simps role_entries_of.simps)


section \<open>Cleanup of the container\<close>




section \<open>Resolution of the settings\<close>





section \<open>The limit of the dispatch\<close>

lemmas dispatch_defs = is_dispatch_event_def dispatch_ok_def

lemma not_dispatch_ok: "\<not> is_dispatch_event e \<Longrightarrow> dispatch_ok a e"
  by (auto simp: dispatch_defs split: event.splits req.splits option.splits)

lemma not_sub_dispatch_ok: "\<not> is_subprocess_event e \<Longrightarrow> dispatch_ok a e"
  by (auto simp: dispatch_defs is_subprocess_event_def split: event.splits req.splits option.splits)

lemma quiet_dispatch_ok: "emits (\<lambda>e. \<not> is_subprocess_event e) m \<Longrightarrow> emits (dispatch_ok a) m"
  by (erule emits_mono) (rule not_sub_dispatch_ok)

lemma dispatch_setup_ssh_keys:
  "emits (dispatch_ok a) (setup_ssh_keys os base_dir key_basename (run_subprocess os))"
  unfolding setup_ssh_keys_def Let_def
  by (intro emits_intros) (simp_all add: dispatch_defs)

lemma dispatch_setup_vault: "emits (dispatch_ok a) (setup_vault os playbook_path vault_file)"
  unfolding setup_vault_def Let_def
  by (intro emits_intros) (simp_all add: dispatch_defs)

lemma dispatch_role_entries_of: "emits (dispatch_ok a) (role_entries_of os ps)"
proof (induction ps)
  case Nil
  show ?case by (simp add: emits_ret)
next
  case (Cons p ps)
  show ?case unfolding role_entries_of.simps
    by (intro emits_intros Cons.IH) (simp_all add: dispatch_defs)
qed

lemma dispatch_setup_roles:
  "emits (dispatch_ok a) (setup_roles os playbook_path (run_subprocess os))"
  unfolding setup_roles_def Let_def
  by (intro emits_intros dispatch_role_entries_of) (simp_all add: dispatch_defs)

lemma dispatch_has_collection: "emits (dispatch_ok a) (has_collection (run_subprocess os) name)"
  unfolding has_collection_def
  by (intro emits_intros) (simp_all add: dispatch_defs)

lemma dispatch_setup_collections: "emits (dispatch_ok a) (setup_collections (run_subprocess os))"
  unfolding setup_collections_def
  by (intro emits_intros dispatch_has_collection) (simp_all add: dispatch_defs)

lemma dispatch_setup_container:
  "emits (dispatch_ok a) (setup_container rt vol pp name port sp img (run_subprocess os))"
  unfolding setup_container_def
  by (intro emits_intros) (simp_all add: dispatch_defs)

lemma dispatch_run_finally: "emits (dispatch_ok a) (run_finally os rt name started)"
  unfolding run_finally_def
  by (intro emits_intros) (simp_all add: dispatch_defs)

lemma playbook_args_limit:
  "playbook_args inventory pb (dispatched_limit a)
     = [py ''ansible-playbook'', py ''--inventory'', inventory, pb] @ limit_words a"
proof -
  have l: "py ''localhost'' \<noteq> []" by (simp add: py_def)
  show ?thesis
    using l by (auto simp: playbook_args_def dispatched_limit_def limit_words_def truthy_def
        split: option.splits)
qed

lemma dispatch_run_playbook:
  "emits (dispatch_ok a)
     (run_playbook os inventory pb extra_env (dispatched_limit a) (run_subprocess os))"
  unfolding run_playbook_def Let_def playbook_args_limit
  by (intro emits_intros) (simp_all add: dispatch_defs)

lemma dispatch_run_after_container:
  "emits (dispatch_ok a) (run_after_container os a pp key vault)"
  unfolding run_after_container_def Let_def
  by (intro emits_thn dispatch_setup_roles dispatch_setup_collections dispatch_run_playbook)

lemma dispatch_run_try_body:
  "emits (dispatch_ok a) (run_try_body os a pp rt vol name port key vault)"
  unfolding emits_def
proof (rule holdsI)
  fix w tr r w' tr'
  assume run: "run_try_body os a pp rt vol name port key vault (w, tr) = (r, (w', tr'))"
  let ?first = "if \<not> arg_skip_container a
            then setup_container rt (or_default vol (py '':ro'')) pp
                   name port DEFAULT_SSH_PORT DEFAULT_CONTAINER_IMAGE (run_subprocess os)
            else ret ()"
  have ef: "emits (dispatch_ok a) ?first" by (intro emits_intros dispatch_setup_container)
  obtain r1 w1 tr1 where f: "?first (w, tr) = (r1, (w1, tr1))" by (metis prod.collapse)
  from emitsD [OF ef f] obtain e1 where e1: "tr1 = tr @ e1" "\<forall>e\<in>set e1. dispatch_ok a e" by blast
  show "\<exists>evs. tr' = tr @ evs \<and> (\<forall>e\<in>set evs. dispatch_ok a e)"
  proof (cases r1)
    case (Inl e)
    with run f have "tr' = tr1" unfolding run_try_body_def by simp
    with e1 show ?thesis by blast
  next
    case (Inr u)
    obtain r2 w2 tr2 where ac: "run_after_container os a pp key vault (w1, tr1) = (r2, (w2, tr2))"
      by (metis prod.collapse)
    from emitsD [OF dispatch_run_after_container ac] obtain e2 where
      e2: "tr2 = tr1 @ e2" "\<forall>e\<in>set e2. dispatch_ok a e" by blast
    from run f Inr ac have "tr' = tr2" unfolding run_try_body_def by simp
    with e1 e2 have "tr' = tr @ (e1 @ e2)" "\<forall>e\<in>set (e1 @ e2). dispatch_ok a e" by auto
    then show ?thesis by blast
  qed
qed

lemma extends_run_subprocess:
  "run_subprocess os xs c env (w, tr) = (r, (w', tr')) \<Longrightarrow>
   \<exists>ans. tr' = tr @ [Called (Subprocess xs c env) ans]"
  using run_subprocess_event [of os xs c env w tr] by auto

lemma run_playbook_dispatches:
  assumes "run_playbook os inventory pb extra_env lim (run_subprocess os) (w, tr) = (Inr u, (w', tr'))"
  shows "\<exists>evs. tr' = tr @ evs \<and> (\<exists>e\<in>set evs. is_dispatch_event e)"
proof -
  obtain r0 w0 tr0 where ec: "environ_copy os (w, tr) = (r0, (w0, tr0))" by (metis prod.collapse)
  have "emits (\<lambda>e. True) (environ_copy os)" by (intro emits_intros) simp
  from emitsD [OF this ec] obtain e0 where e0: "tr0 = tr @ e0" by blast
  from assms ec obtain env0 where r0: "r0 = Inr env0"
    by (cases r0) (simp_all add: run_playbook_def thn_def)
  let ?env = "dict_update env0 extra_env"
  obtain r1 w1 tr1 where
    rs: "run_subprocess os (playbook_args inventory pb lim) False (Some ?env) (w0, tr0) = (r1, (w1, tr1))"
    by (metis prod.collapse)
  from extends_run_subprocess [OF rs] obtain ans where
    tr1: "tr1 = tr0 @ [Called (Subprocess (playbook_args inventory pb lim) False (Some ?env)) ans]"
    by blast
  from assms ec r0 rs have "tr' = tr1"
    by (cases r1) (simp_all add: run_playbook_def thn_def Let_def ret_def)
  with tr1 e0 have "tr' = tr @ (e0 @ [Called (Subprocess (playbook_args inventory pb lim) False
      (Some ?env)) ans])" by simp
  moreover have "is_dispatch_event (Called (Subprocess (playbook_args inventory pb lim) False
      (Some ?env)) ans)" by (simp add: is_dispatch_event_def)
  ultimately show ?thesis by (metis in_set_conv_decomp)
qed

lemma run_after_container_dispatches:
  assumes "run_after_container os a pp key vault (w, tr) = (Inr u, (w', tr'))"
  shows "\<exists>evs. tr' = tr @ evs \<and> (\<exists>e\<in>set evs. is_dispatch_event e)"
proof -
  let ?env = "[(py ''ANSIBLE_PRIVATE_KEY_FILE'', key),
              (py ''ANSIBLE_HOST_KEY_CHECKING'', py ''False''),
              (py ''ANSIBLE_VAULT_PASSWORD_FILE'', vault)]"
  obtain r1 w1 tr1 where
    sr: "setup_roles os pp (run_subprocess os) (w, tr) = (r1, (w1, tr1))" by (metis prod.collapse)
  from emitsD [OF dispatch_setup_roles sr] obtain e1 where e1: "tr1 = tr @ e1" by blast
  from assms sr obtain u1 where r1: "r1 = Inr u1"
    by (cases r1) (simp_all add: run_after_container_def thn_def)
  obtain r2 w2 tr2 where
    sc: "setup_collections (run_subprocess os) (w1, tr1) = (r2, (w2, tr2))" by (metis prod.collapse)
  from emitsD [OF dispatch_setup_collections sc] obtain e2 where e2: "tr2 = tr1 @ e2" by blast
  from assms sr r1 sc obtain u2 where r2: "r2 = Inr u2"
    by (cases r2) (simp_all add: run_after_container_def thn_def)
  from assms sr r1 sc r2 have "run_playbook os (pjoin pp INVENTORY_FILE) (pjoin pp PLAYBOOK_FILE)
      ?env (dispatched_limit a) (run_subprocess os) (w2, tr2) = (Inr u, (w', tr'))"
    by (simp add: run_after_container_def thn_def Let_def)
  from run_playbook_dispatches [OF this] obtain e3 where
    e3: "tr' = tr2 @ e3" "\<exists>e\<in>set e3. is_dispatch_event e" by blast
  from e1 e2 e3 have "tr' = tr @ (e1 @ e2 @ e3)" "\<exists>e\<in>set (e1 @ e2 @ e3). is_dispatch_event e"
    by auto
  then show ?thesis by blast
qed

lemma run_try_body_dispatches:
  assumes "run_try_body os a pp rt vol name port key vault (w, tr) = (r, (w', tr'))"
  shows "\<exists>evs started outcome. tr' = tr @ evs \<and> r = Inr (started, outcome) \<and>
     (\<forall>e\<in>set evs. dispatch_ok a e) \<and>
     ((\<exists>u. outcome = Inr u) \<longrightarrow> (\<exists>e\<in>set evs. is_dispatch_event e))"
proof -
  let ?first = "if \<not> arg_skip_container a
            then setup_container rt (or_default vol (py '':ro'')) pp
                   name port DEFAULT_SSH_PORT DEFAULT_CONTAINER_IMAGE (run_subprocess os)
            else ret ()"
  from emitsD [OF dispatch_run_try_body assms] obtain evs where
    evs: "tr' = tr @ evs" "\<forall>e\<in>set evs. dispatch_ok a e" by blast
  have ef: "emits (dispatch_ok a) ?first" by (intro emits_intros dispatch_setup_container)
  obtain r1 w1 tr1 where f: "?first (w, tr) = (r1, (w1, tr1))" by (metis prod.collapse)
  from emitsD [OF ef f] obtain e1 where e1: "tr1 = tr @ e1" by blast
  show ?thesis
  proof (cases r1)
    case (Inl e)
    with assms f have "r = Inr (False, Inl e)" unfolding run_try_body_def by simp
    with evs show ?thesis by blast
  next
    case (Inr u)
    obtain r2 w2 tr2 where ac: "run_after_container os a pp key vault (w1, tr1) = (r2, (w2, tr2))"
      by (metis prod.collapse)
    from assms f Inr ac have res: "r = Inr (\<not> arg_skip_container a, r2)" "tr' = tr2"
      unfolding run_try_body_def by simp_all
    have "(\<exists>u. r2 = Inr u) \<longrightarrow> (\<exists>e\<in>set evs. is_dispatch_event e)"
    proof
      assume "\<exists>u. r2 = Inr u"
      then obtain u2 where "r2 = Inr u2" by blast
      with ac have "run_after_container os a pp key vault (w1, tr1) = (Inr u2, (w2, tr2))" by simp
      from run_after_container_dispatches [OF this] obtain e2 where
        e2: "tr2 = tr1 @ e2" "\<exists>e\<in>set e2. is_dispatch_event e" by blast
      from e1 e2 res(2) evs(1) have "evs = e1 @ e2" by simp
      with e2(2) show "\<exists>e\<in>set evs. is_dispatch_event e" by auto
    qed
    with res(1) evs show ?thesis by blast
  qed
qed

lemma run_tail_dispatch:
  "holds (dispatch_goal a)
     (thn (run_try_body os a pp rt vol name port key vault) (\<lambda>(container_started, outcome).
      thn (run_finally os rt name container_started) (\<lambda>_.
        case outcome of Inl e \<Rightarrow> raise e | Inr _ \<Rightarrow> ret SUCCESS)))"
proof (rule holdsI)
  fix w tr r w' tr'
  let ?K = "\<lambda>(container_started, outcome).
      thn (run_finally os rt name container_started) (\<lambda>_.
        case outcome of Inl e \<Rightarrow> raise e | Inr _ \<Rightarrow> ret SUCCESS)"
  assume run: "thn (run_try_body os a pp rt vol name port key vault) ?K (w, tr) = (r, (w', tr'))"
  obtain rb wb trb where
    body: "run_try_body os a pp rt vol name port key vault (w, tr) = (rb, (wb, trb))"
    by (metis prod.collapse)
  from run_try_body_dispatches [OF body] obtain e1 started outcome where
    e1: "trb = tr @ e1" "rb = Inr (started, outcome)" "\<forall>e\<in>set e1. dispatch_ok a e"
    "(\<exists>u. outcome = Inr u) \<longrightarrow> (\<exists>e\<in>set e1. is_dispatch_event e)" by blast
  obtain rf wf trf where fin: "run_finally os rt name started (wb, trb) = (rf, (wf, trf))"
    by (metis prod.collapse)
  from emitsD [OF dispatch_run_finally fin] obtain e2 where
    e2: "trf = trb @ e2" "\<forall>e\<in>set e2. dispatch_ok a e" by blast
  from run body e1(2) fin have tr': "tr' = trf"
    by (cases rf; cases outcome) (simp_all add: thn_def ret_def raise_def)
  from run body e1(2) fin have ok: "r = Inr SUCCESS \<longrightarrow> (\<exists>u. outcome = Inr u)"
    by (cases rf; cases outcome) (auto simp: thn_def ret_def raise_def)
  have "tr' = tr @ (e1 @ e2)" using tr' e1(1) e2(1) by simp
  moreover have "dispatch_goal a r (e1 @ e2)"
    unfolding dispatch_goal_def using e1(3,4) e2(2) ok by auto
  ultimately show "\<exists>evs. tr' = tr @ evs \<and> dispatch_goal a r evs" by blast
qed

lemma dispatch_step:
  assumes "emits (dispatch_ok a) m" and "\<And>x. holds (dispatch_goal a) (f x)"
  shows "holds (dispatch_goal a) (thn m f)"
proof (rule holds_prefix [OF assms(1)])
  show "holds (dispatch_goal a) (f x)" for x by (rule assms(2))
  show "dispatch_goal a (Inl e) evs" if "\<forall>x\<in>set evs. dispatch_ok a x" for e evs
    using that by (simp add: dispatch_goal_def)
  show "dispatch_goal a r (e1 @ e2)"
    if "\<forall>x\<in>set e1. dispatch_ok a x" "dispatch_goal a r e2" for r e1 e2
    using that by (auto simp: dispatch_goal_def)
qed

lemma dispatch_ret:
  "c = NO_RUNTIME \<or> c = MISSING_DEPENDENCY \<Longrightarrow> holds (dispatch_goal a) (ret c)"
  by (auto simp: holds_def ret_def dispatch_goal_def NO_RUNTIME_def MISSING_DEPENDENCY_def
      SUCCESS_def)

lemma run_dispatch_holds: "holds (dispatch_goal a) (run os a)"
  unfolding run_def run_resolve_def run_with_def
  apply (rule dispatch_step [OF quiet_dispatch_ok [OF emits_resolve_playbook_path_ns]])
  apply (rule dispatch_step [OF quiet_dispatch_ok [OF emits_load_env_file]])
  apply (rule dispatch_step [OF quiet_dispatch_ok [OF emits_set_env_vars]])
  apply (rule dispatch_step [OF quiet_dispatch_ok [OF emits_resolve_setting]])
  apply (rule dispatch_step [OF quiet_dispatch_ok [OF emits_resolve_setting]])
  apply (rule dispatch_step [OF quiet_dispatch_ok [OF emits_resolve_setting]])
  apply (rule dispatch_step [OF quiet_dispatch_ok [OF emits_parse_block]])
  apply (rule holds_case_option)
   apply (rule dispatch_ret, simp)
  apply (rule dispatch_step [OF quiet_dispatch_ok [OF emits_detect_container_runtime]])
  apply (rule holds_case_prod)
  apply (rule holds_case_option)
   apply (rule dispatch_ret, simp)
  apply (rule dispatch_step [OF quiet_dispatch_ok [OF emits_detect_ansible]])
  apply (rule holds_if)
   apply (rule dispatch_ret, simp)
  apply (rule dispatch_step [OF dispatch_setup_ssh_keys])
  apply (rule holds_case_prod)
  apply (rule dispatch_step [OF dispatch_setup_vault])
  apply (rule run_tail_dispatch)
  done

text \<open>
  Claim C8. In every run, whatever the host answers, each command that is run with an
  environment of its own (the dispatch of the playbook is the only place where the
  workflow passes one) is \<open>ansible-playbook --inventory <inventory> <playbook>\<close>
  followed by the expected words: \<open>-l\<close> and the limit of the caller when one is
  supplied, \<open>-l localhost\<close> in container-skip mode when none is supplied, nothing
  otherwise; and a run that returns \<open>SUCCESS\<close> has dispatched the playbook. The limit
  that \<open>run\<close> computes (\<open>dispatched_limit\<close>) gives exactly these words in the
  command line that \<open>run_playbook\<close> builds. Supplied is read as the code reads it: a
  limit that is neither \<open>None\<close> nor the empty string.
\<close>

theorem run_dispatch_limit:
  assumes "run os a (w, tr) = (r, (w', tr'))"
  shows "\<exists>evs. tr' = tr @ evs \<and>
     (\<forall>e\<in>set evs. dispatch_ok a e) \<and>
     (r = Inr SUCCESS \<longrightarrow> (\<exists>e\<in>set evs. is_dispatch_event e)) \<and>
     playbook_args inventory pb (dispatched_limit a)
       = [py ''ansible-playbook'', py ''--inventory'', inventory, pb] @ limit_words a \<and>
     (arg_skip_container a \<and> \<not> truthy (arg_limit a) \<longrightarrow>
        limit_words a = [py ''-l'', py ''localhost'']) \<and>
     (truthy (arg_limit a) \<longrightarrow> limit_words a = [py ''-l'', the (arg_limit a)])"
proof -
  from holdsD [OF run_dispatch_holds assms] obtain evs where
    evs: "tr' = tr @ evs" "dispatch_goal a r evs" by blast
  from evs(2) have 1: "\<forall>e\<in>set evs. dispatch_ok a e"
    and 2: "r = Inr SUCCESS \<longrightarrow> (\<exists>e\<in>set evs. is_dispatch_event e)"
    by (simp_all add: dispatch_goal_def)
  have 3: "arg_skip_container a \<and> \<not> truthy (arg_limit a) \<longrightarrow>
        limit_words a = [py ''-l'', py ''localhost'']"
    by (simp add: limit_words_def)
  have 4: "truthy (arg_limit a) \<longrightarrow> limit_words a = [py ''-l'', the (arg_limit a)]"
    by (simp add: limit_words_def)
  show ?thesis
    by (rule exI [of _ evs])
       (rule conjI [OF evs(1) conjI [OF 1 conjI [OF 2 conjI [OF playbook_args_limit
          conjI [OF 3 4]]]]])
qed

text \<open>
  C8 on the recorded session in container-skip mode with no limit: the run returns
  \<open>SUCCESS\<close>, and the playbook command ends with \<open>-l localhost\<close>.
\<close>

theorem run_dispatch_limit_witness:
  "arg_skip_container skip_args \<and> \<not> truthy (arg_limit skip_args) \<and>
   fst (run (mock_os tools_installed) skip_args (skip_session, [])) = Inr SUCCESS \<and>
   list_all (dispatch_ok skip_args)
     (snd (snd (run (mock_os tools_installed) skip_args (skip_session, [])))) \<and>
   list_ex is_dispatch_event
     (snd (snd (run (mock_os tools_installed) skip_args (skip_session, [])))) \<and>
   last (commands (snd (snd (run (mock_os tools_installed) skip_args (skip_session, [])))))
     = [py ''ansible-playbook'', py ''--inventory'', py ''/srv/sandbox/inventory/main.yml'',
        py ''/srv/sandbox/playbooks/sample_playbook.yml'', py ''-l'', py ''localhost'']"
proof -
  define R where "R = run (mock_os tools_installed) skip_args (skip_session, [])"
  from skip_run_value have v: "fst R = Inr SUCCESS"
    "last (commands (snd (snd R)))
     = [py ''ansible-playbook'', py ''--inventory'', py ''/srv/sandbox/inventory/main.yml'',
        py ''/srv/sandbox/playbooks/sample_playbook.yml'', py ''-l'', py ''localhost'']"
    unfolding R_def by (simp_all add: case_prod_beta)
  have "run (mock_os tools_installed) skip_args (skip_session, [])
      = (fst R, fst (snd R), snd (snd R))"
    unfolding R_def by simp
  from run_dispatch_limit [OF this] obtain evs where
    evs: "snd (snd R) = [] @ evs" "\<forall>e\<in>set evs. dispatch_ok skip_args e"
    "fst R = Inr SUCCESS \<longrightarrow> (\<exists>e\<in>set evs. is_dispatch_event e)"
    by blast
  from evs v(1) have a: "list_all (dispatch_ok skip_args) (snd (snd R))"
    "list_ex is_dispatch_event (snd (snd R))"
    by (simp_all add: list_all_iff list_ex_iff)
  have s: "arg_skip_container skip_args" "\<not> truthy (arg_limit skip_args)"
    by (simp_all add: skip_args_def plain_args_def truthy_def)
  from s v a show ?thesis unfolding R_def by blast
qed

section \<open>The status of the activation workflow\<close>

lemma thn_returns:
  assumes "thn m f s = (Inr c, s')"
  obtains x s1 where "f x s1 = (Inr c, s')"
proof -
  obtain r1 s1 where m: "m s = (r1, s1)" by (cases "m s")
  with assms obtain x where "r1 = Inr x" by (cases r1) (simp_all add: thn_def)
  with assms m have "f x s1 = (Inr c, s')" by (simp add: thn_def)
  then show ?thesis by (rule that)
qed

lemma activate_write_back_status:
  "activate_write_back os a pp vp s = (Inr c, s') \<Longrightarrow> c = SUCCESS"
  unfolding activate_write_back_def Let_def
  by (elim thn_returns) (simp add: ret_def)

lemma activate_value:
  "case activate (mock_os nothing_installed) plain_args (no_python_session, []) of (r, w, tr) \<Rightarrow>
     r = Inr 0 \<and> w = [] \<and>
     filter (\<lambda>e. case e of Warned m \<Rightarrow> True | _ \<Rightarrow> False) tr
       = [Warned (py ''No suitable Python found in candidates'')] \<and>
     commands tr = []"
  by (simp add: step_defs value_defs no_python_session_def old_candidates_def
      venv_python_path_def select_python_def build_activation_env_def ANSIBLE_ENV_DEFAULTS_def
      env_text_def
      del: put_all.simps find_runtime.simps role_entries_of.simps)

text \<open>
  Claim C5 does not hold of the code. Whatever the host answers, a status that
  \<open>activate\<close> returns is \<open>SUCCESS\<close>: it is never \<open>NO_PYTHON\<close>, the status 3 that
  the table of return codes reserves for the case that no suitable interpreter is found,
  and \<open>main\<close> passes the status on.
\<close>

theorem activate_never_no_python:
  assumes "activate os a s = (Inr c, s')"
  shows "c = SUCCESS \<and> c \<noteq> NO_PYTHON \<and> fst (main os Activate a s) = SUCCESS"
proof -
  from assms have c: "c = SUCCESS"
    unfolding activate_def
    apply (elim thn_returns)
    apply (simp only: case_prod_beta)
    apply (elim thn_returns)
    apply (erule activate_write_back_status)
    done
  then have "c \<noteq> NO_PYTHON" by (simp add: SUCCESS_def NO_PYTHON_def)
  moreover have "fst (main os Activate a s) = SUCCESS"
    using assms c by (simp add: main_def)
  ultimately show ?thesis using c by simp
qed

text \<open>
  The recorded session on a machine whose only interpreter is Python 3.9, with no virtual
  environment: \<open>select_python\<close> selects nothing, and the process ends with status 0,
  not 3.
\<close>

theorem activate_never_no_python_witness:
  "select_python old_candidates = None \<and>
   fst (activate (mock_os nothing_installed) plain_args (no_python_session, [])) = Inr 0 \<and>
   fst (main (mock_os nothing_installed) Activate plain_args (no_python_session, [])) = 0 \<and>
   NO_PYTHON = 3"
proof -
  define R where "R = activate (mock_os nothing_installed) plain_args (no_python_session, [])"
  from activate_value have v: "fst R = Inr 0" unfolding R_def by (simp add: case_prod_beta)
  then have "activate (mock_os nothing_installed) plain_args (no_python_session, [])
      = (Inr 0, snd R)"
    unfolding R_def by (metis prod.collapse)
  from activate_never_no_python [OF this]
  have m: "fst (main (mock_os nothing_installed) Activate plain_args (no_python_session, [])) = 0"
    by (simp add: SUCCESS_def)
  have s: "select_python old_candidates = None"
    by (simp add: select_python_def old_candidates_def)
  from s v m show ?thesis unfolding R_def by (simp add: NO_PYTHON_def)
qed

end
